theory Spec2Isabelle
  imports Main
begin

section \<open>String utilities (main.cpp, section 1)\<close>

text \<open>
  A \<open>std::string\<close> is a byte sequence, modelled as \<open>string\<close> (a \<open>char list\<close>).
  \<open>trimStr\<close> cuts at the first and last byte outside the set \<open>" \t\r\n"\<close>.
\<close>

definition isTrimWs :: "char \<Rightarrow> bool" where
  "isTrimWs c = (c = CHR '' '' \<or> c = CHR 0x09 \<or> c = CHR 0x0D \<or> c = CHR 0x0A)"

definition trimStr :: "string \<Rightarrow> string" where
  "trimStr s = rev (dropWhile isTrimWs (rev (dropWhile isTrimWs s)))"

text \<open>
  \<open>splitWords\<close> reads with \<open>iss >> w\<close>: the stream skips bytes for which \<open>isspace\<close>
  holds (space, tab, newline, vertical tab, form feed, carriage return) and a word ends
  at the next such byte.
\<close>

definition isspace :: "char \<Rightarrow> bool" where
  "isspace c = (c = CHR '' '' \<or> c = CHR 0x09 \<or> c = CHR 0x0A \<or> c = CHR 0x0B
                \<or> c = CHR 0x0C \<or> c = CHR 0x0D)"

fun splitLoop :: "string \<Rightarrow> string \<Rightarrow> string list" where
  "splitLoop w [] = (if w = [] then [] else [w])"
| "splitLoop w (c # cs) =
     (if isspace c then (if w = [] then splitLoop [] cs else w # splitLoop [] cs)
      else splitLoop (w @ [c]) cs)"

definition splitWords :: "string \<Rightarrow> string list" where
  "splitWords s = splitLoop [] s"

text \<open>\<open>s.rfind(p, 0) == 0\<close>: the string \<open>s\<close> starts with \<open>p\<close>.\<close>

definition startsWith :: "string \<Rightarrow> string \<Rightarrow> bool" where
  "startsWith s p = (take (length p) s = p)"

text \<open>\<open>s.find(n) != npos\<close>: \<open>n\<close> occurs in \<open>s\<close> as a contiguous substring.\<close>

fun findStr :: "string \<Rightarrow> string \<Rightarrow> bool" where
  "findStr [] n = (n = [])"
| "findStr (c # cs) n = (startsWith (c # cs) n \<or> findStr cs n)"

text \<open>\<open>tolower\<close> in the C locale maps \<open>A..Z\<close> to \<open>a..z\<close> and leaves every other byte.\<close>

definition tolowerChar :: "char \<Rightarrow> char" where
  "tolowerChar c = (let n = of_char c :: nat in
                      if 65 \<le> n \<and> n \<le> 90 then char_of (n + 32) else c)"

definition toLower :: "string \<Rightarrow> string" where
  "toLower s = map tolowerChar s"

text \<open>
  \<open>s[i]\<close> on a \<open>std::string\<close>: the byte at \<open>i\<close>; at \<open>i = size\<close> the terminating
  null byte. (Beyond that the access is undefined; callers below guard it.)
\<close>

definition charAt :: "string \<Rightarrow> nat \<Rightarrow> char" where
  "charAt s i = (if i < length s then s ! i else CHR 0x00)"

section \<open>Repository entries (section 5)\<close>

record RepoEntry =
  repoFile :: string
  display :: string
  enabled :: bool
  isDeb822 :: bool
  blockIndex :: int
  uri :: string
  suite :: string
  components :: string
  types :: string

section \<open>Reading a file line by line\<close>

text \<open>
  \<open>std::getline\<close> in a \<open>while\<close> loop: a line ends at a newline byte, which is dropped;
  a last line without a newline is still delivered when it is not empty; after the last
  newline nothing more is delivered.
\<close>

fun getlineLoop :: "string \<Rightarrow> string \<Rightarrow> string list" where
  "getlineLoop cur [] = (if cur = [] then [] else [cur])"
| "getlineLoop cur (c # cs) =
     (if c = CHR 0x0A then cur # getlineLoop [] cs else getlineLoop (cur @ [c]) cs)"

definition getlines :: "string \<Rightarrow> string list" where
  "getlines content = getlineLoop [] content"

section \<open>Parsing one-line files (parseListFile)\<close>

text \<open>The components are the words from index 3 on, joined by single spaces.\<close>

fun joinComponents :: "string \<Rightarrow> string list \<Rightarrow> string" where
  "joinComponents acc [] = acc"
| "joinComponents acc (w # ws) =
     joinComponents ((if acc \<noteq> [] then acc @ '' '' else acc) @ w) ws"

text \<open>
  The body of the \<open>while\<close> loop of \<open>parseListFile\<close> for one line: \<open>None\<close> where the
  loop says \<open>continue\<close>, otherwise the entry pushed to \<open>g_repos\<close>.
\<close>

definition parseListLine :: "string \<Rightarrow> string \<Rightarrow> RepoEntry option" where
  "parseListLine path line =
     (let t = trimStr line in
      if t = [] then None
      else
        let isDeb = startsWith t ''deb'';
            isHDeb = (charAt t 0 = CHR ''#'' \<and> startsWith (trimStr (drop 1 t)) ''deb'')
        in if \<not> isDeb \<and> \<not> isHDeb then None
           else
             let en = (charAt t 0 \<noteq> CHR ''#'');
                 parseable = (if en then t
                              else trimStr (drop (if charAt t 1 = CHR '' '' then 2 else 1) t));
                 words = splitWords parseable
             in Some \<lparr> repoFile = path, display = line, enabled = en, isDeb822 = False,
                       blockIndex = - 1,
                       uri = (if length words > 1 then words ! 1 else []),
                       suite = (if length words > 2 then words ! 2 else []),
                       components = (if length words > 3
                                     then joinComponents [] (drop 3 words) else []),
                       types = ''deb'' \<rparr>)"

definition parseListLines :: "string \<Rightarrow> string list \<Rightarrow> RepoEntry list" where
  "parseListLines path ls = List.map_filter (parseListLine path) ls"

text \<open>
  \<open>parseListFile\<close> on a file system: a file that cannot be opened yields no entries.
\<close>

definition parseListFile :: "(string \<rightharpoonup> string) \<Rightarrow> string \<Rightarrow> RepoEntry list" where
  "parseListFile fs path =
     (case fs path of None \<Rightarrow> [] | Some content \<Rightarrow> parseListLines path (getlines content))"

section \<open>Parsing paragraph files (parseSourcesFile)\<close>

text \<open>The local variables of the lambda \<open>processBlock\<close> that outlive its \<open>for\<close> loop.\<close>

record BlockState =
  bTypes :: string
  bUris :: "string list"
  bSuites :: "string list"
  bCompRaw :: string
  bComps :: "string list"
  bEnabled :: bool

definition initBlockState :: BlockState where
  "initBlockState = \<lparr> bTypes = [], bUris = [], bSuites = [], bCompRaw = [], bComps = [],
                        bEnabled = True \<rparr>"

text \<open>One iteration of \<open>for (auto l : blines)\<close>.\<close>

definition blockLineStep :: "BlockState \<Rightarrow> string \<Rightarrow> BlockState" where
  "blockLineStep st l0 =
     (let l = trimStr l0 in
      if l = [] \<or> charAt l 0 = CHR ''#'' then st
      else if startsWith l ''Types:'' then st\<lparr> bTypes := trimStr (drop 6 l) \<rparr>
      else if startsWith l ''URIs:'' then st\<lparr> bUris := splitWords (trimStr (drop 5 l)) \<rparr>
      else if startsWith l ''Suites:'' then st\<lparr> bSuites := splitWords (trimStr (drop 7 l)) \<rparr>
      else if startsWith l ''Components:''
        then st\<lparr> bCompRaw := trimStr (drop 11 l),
                 bComps := splitWords (trimStr (drop 11 l)) \<rparr>
      else if startsWith l ''Enabled:''
        then (let v = trimStr (drop 8 l)
              in st\<lparr> bEnabled := (v = ''yes'' \<or> v = ''Yes'' \<or> v = ''YES'') \<rparr>)
      else st)"

definition scanBlock :: "string list \<Rightarrow> BlockState" where
  "scanBlock blines = foldl blockLineStep initBlockState blines"

text \<open>The two early returns of \<open>processBlock\<close>: the block produces no entry.\<close>

definition blockRejected :: "BlockState \<Rightarrow> bool" where
  "blockRejected st = (\<not> findStr (bTypes st) ''deb'' \<or> bUris st = [] \<or> bSuites st = [])"

definition displayOf :: "string \<Rightarrow> string \<Rightarrow> string \<Rightarrow> string list \<Rightarrow> string" where
  "displayOf ty u su comps =
     ty @ '' '' @ u @ '' '' @ su @
     (if comps \<noteq> [] then butlast ('' '' @ concat (map (\<lambda>c. c @ '' '') comps)) else [])"

definition blockEntry :: "string \<Rightarrow> int \<Rightarrow> BlockState \<Rightarrow> string \<Rightarrow> string \<Rightarrow> RepoEntry" where
  "blockEntry path idx st u su =
     \<lparr> repoFile = path, display = displayOf (bTypes st) u su (bComps st),
       enabled = bEnabled st, isDeb822 = True, blockIndex = idx,
       uri = u, suite = su, components = bCompRaw st, types = bTypes st \<rparr>"

text \<open>
  \<open>processBlock\<close> with its captured counter made explicit: it returns the entries it
  pushes and the new value of \<open>blockIndex\<close>, which is incremented on the accepting path
  only.
\<close>

definition processBlock :: "string \<Rightarrow> int \<Rightarrow> string list \<Rightarrow> RepoEntry list \<times> int" where
  "processBlock path idx blines =
     (let st = scanBlock blines in
      if blockRejected st then ([], idx)
      else (concat (map (\<lambda>u. map (\<lambda>su. blockEntry path idx st u su) (bSuites st)) (bUris st)),
            idx + 1))"

text \<open>
  The \<open>while (getline)\<close> loop: \<open>block\<close> collects the lines of the current run, a blank
  line closes it, and the last run is processed after the loop.
\<close>

fun sourcesLoop :: "string \<Rightarrow> string list \<Rightarrow> int \<Rightarrow> string list \<Rightarrow> RepoEntry list" where
  "sourcesLoop path block idx [] =
     (if block \<noteq> [] then fst (processBlock path idx block) else [])"
| "sourcesLoop path block idx (line # rest) =
     (if trimStr line = [] then
        (if block \<noteq> [] then
           (case processBlock path idx block of
              (es, idx') \<Rightarrow> es @ sourcesLoop path [] idx' rest)
         else sourcesLoop path block idx rest)
      else sourcesLoop path (block @ [line]) idx rest)"

definition parseSourcesLines :: "string \<Rightarrow> string list \<Rightarrow> RepoEntry list" where
  "parseSourcesLines path ls = sourcesLoop path [] 0 ls"

definition parseSourcesFile :: "(string \<rightharpoonup> string) \<Rightarrow> string \<Rightarrow> RepoEntry list" where
  "parseSourcesFile fs path =
     (case fs path of None \<Rightarrow> [] | Some content \<Rightarrow> parseSourcesLines path (getlines content))"

section \<open>Block ranges of the mutation engine (toggleDeb822, deleteRepoClean)\<close>

text \<open>
  Both functions hold the same loop over \<open>allLines\<close>. A range is the pair \<open>(s, e)\<close> of
  the struct \<open>Range\<close>; the loop state is the index \<open>i\<close>, \<open>bs\<close> and \<open>inB\<close>. The two
  \<open>if\<close> statements of the body run one after the other, as in the source; the block pushed
  after the loop ends at \<open>size - 1\<close>.
\<close>

type_synonym Range = "int \<times> int"

fun rangesLoop :: "string list \<Rightarrow> int \<Rightarrow> int \<Rightarrow> bool \<Rightarrow> Range list" where
  "rangesLoop [] i bs inB = (if inB then [(bs, i - 1)] else [])"
| "rangesLoop (l # ls) i bs inB =
     (let blank = (trimStr l = []);
          bs1 = (if \<not> blank \<and> \<not> inB then i else bs);
          inB1 = (if \<not> blank \<and> \<not> inB then True else inB)
      in if blank \<and> inB1 then (bs1, i - 1) # rangesLoop ls (i + 1) bs1 False
         else rangesLoop ls (i + 1) bs1 inB1)"

definition blockRanges :: "string list \<Rightarrow> Range list" where
  "blockRanges allLines = rangesLoop allLines 0 (- 1) False"

section \<open>Relating the two enumerations\<close>

text \<open>The lines \<open>allLines[s..e]\<close> of a range.\<close>

definition blockLines :: "string list \<Rightarrow> Range \<Rightarrow> string list" where
  "blockLines allLines r = take (nat (snd r - fst r + 1)) (drop (nat (fst r)) allLines)"

text \<open>\<open>processBlock\<close> run over a list of blocks in order, threading the counter.\<close>

fun parseBlocks :: "string \<Rightarrow> int \<Rightarrow> string list list \<Rightarrow> RepoEntry list \<times> int" where
  "parseBlocks path idx [] = ([], idx)"
| "parseBlocks path idx (b # bs) =
     (case processBlock path idx b of
        (es, idx') \<Rightarrow> (case parseBlocks path idx' bs of (es', idx'') \<Rightarrow> (es @ es', idx'')))"

text \<open>
  The \<open>k\<close>-th physical block of a file (numbered as the mutation engine does), whether the
  parser accepts it, and the entries the parser pushes while it processes that block:
  the counter it then holds is the one left by the blocks before.
\<close>

definition physicalBlocks :: "string list \<Rightarrow> string list list" where
  "physicalBlocks allLines = map (blockLines allLines) (blockRanges allLines)"

definition blockAcceptedAt :: "string list \<Rightarrow> nat \<Rightarrow> bool" where
  "blockAcceptedAt allLines k = (\<not> blockRejected (scanBlock (physicalBlocks allLines ! k)))"

definition entriesOfBlock :: "string \<Rightarrow> string list \<Rightarrow> nat \<Rightarrow> RepoEntry list" where
  "entriesOfBlock path allLines k =
     fst (processBlock path (snd (parseBlocks path 0 (take k (physicalBlocks allLines))))
            (physicalBlocks allLines ! k))"

text \<open>
  The parser's loop with \<open>processBlock\<close> left out: the runs of lines it hands over, in
  order. It serves to compare the loop with \<open>rangesLoop\<close>.
\<close>

fun groupLoop :: "string list \<Rightarrow> string list \<Rightarrow> string list list" where
  "groupLoop block [] = (if block \<noteq> [] then [block] else [])"
| "groupLoop block (l # ls) =
     (if trimStr l = [] then (if block \<noteq> [] then block # groupLoop [] ls else groupLoop block ls)
      else groupLoop (block @ [l]) ls)"

section \<open>Files, the undo stack and the outcome of I/O (sections 5, 8, 9)\<close>

text \<open>
  The file system maps a path to the bytes of the file; \<open>None\<close> is a file that cannot
  be opened for reading. Paths are compared as strings. \<open>World\<close> holds what the mutating
  functions touch: the files, the global \<open>g_undoStack\<close> and \<open>g_cfg.backupDir\<close>.
\<close>

record UndoEntry =
  undoFile :: string
  undoLines :: "string list"

record World =
  files :: "string \<rightharpoonup> string"
  undoStack :: "UndoEntry list"
  backupDir :: string

definition k_maxUndo :: nat where
  "k_maxUndo = 20"

text \<open>
  An uncaught C++ exception ends the process through \<open>std::terminate\<close>: a function
  either returns its value or throws.
\<close>

datatype 'a Outcome = Returns 'a | Uncaught string

definition readAllLines :: "(string \<rightharpoonup> string) \<Rightarrow> string \<Rightarrow> string list" where
  "readAllLines fs path = (case fs path of None \<Rightarrow> [] | Some content \<Rightarrow> getlines content)"

text \<open>\<open>for (const auto& l : lines) out << l << "\n"\<close>: the bytes written.\<close>

definition writeLines :: "string list \<Rightarrow> string" where
  "writeLines ls = concat (map (\<lambda>l. l @ [CHR 0x0A]) ls)"

text \<open>
  What the operating system does to one call of \<open>atomicWriteLines\<close>: the temporary file
  cannot be opened; the stream goes bad after some bytes reached the temporary file;
  \<open>rename\<close> fails with an error text; or everything succeeds.
\<close>

datatype WriteIO = TmpOpenFails | TmpWriteFails nat | RenameFails string | WriteSucceeds

text \<open>
  The \<open>errMsg\<close> reference parameter is passed in and returned. A successful \<open>rename\<close>
  makes the temporary file the target; a failed one is followed by \<open>remove(tmp)\<close>.
\<close>

definition atomicWriteLines ::
  "WriteIO \<Rightarrow> string \<Rightarrow> string list \<Rightarrow> string \<Rightarrow> (string \<rightharpoonup> string)
     \<Rightarrow> bool \<times> string \<times> (string \<rightharpoonup> string)" where
  "atomicWriteLines io path ls errMsg fs =
     (let tmp = path @ ''.relix.tmp'' in
      case io of
        TmpOpenFails \<Rightarrow> (False, ''Cannot open tmp file'', fs)
      | TmpWriteFails n \<Rightarrow> (False, ''Write error on tmp file'', fs(tmp \<mapsto> take n (writeLines ls)))
      | RenameFails err \<Rightarrow> (False, ''rename() failed: '' @ err, fs(tmp := None))
      | WriteSucceeds \<Rightarrow> (True, errMsg, (fs(tmp := None))(path \<mapsto> writeLines ls)))"

text \<open>
  \<open>backupFile\<close>: the directory cannot be created, the copy fails, or the copy succeeds
  (which needs the source file). The timestamp is the clock's, formatted by \<open>strftime\<close>.
\<close>

datatype BackupIO = MkdirFails string | CopyFails string | CopySucceeds

definition backupDest :: "string \<Rightarrow> string \<Rightarrow> string \<Rightarrow> string" where
  "backupDest dir src ts =
     dir @ ''/'' @ map (\<lambda>c. if c = CHR ''/'' then CHR ''_'' else c) src @ ''.'' @ ts @ ''.bak''"

definition backupFile ::
  "BackupIO \<Rightarrow> string \<Rightarrow> string \<Rightarrow> string \<Rightarrow> World \<Rightarrow> bool \<times> string \<times> World" where
  "backupFile io ts src errMsg w =
     (case io of
        MkdirFails m \<Rightarrow> (False, ''Cannot create backup dir: '' @ m, w)
      | CopyFails m \<Rightarrow> (False, ''Backup copy failed: '' @ m, w)
      | CopySucceeds \<Rightarrow>
          (case files w src of
             None \<Rightarrow> (False, ''Backup copy failed: No such file or directory'', w)
           | Some content \<Rightarrow>
               (True, errMsg,
                w\<lparr> files := (files w)(backupDest (backupDir w) src ts \<mapsto> content) \<rparr>)))"

definition pushUndo :: "string \<Rightarrow> World \<Rightarrow> World" where
  "pushUndo path w =
     (let ls = readAllLines (files w) path;
          st = (if length (undoStack w) \<ge> k_maxUndo then tl (undoStack w) else undoStack w)
      in w\<lparr> undoStack := st @ [\<lparr> undoFile = path, undoLines = ls \<rparr>] \<rparr>)"

definition applyUndo :: "WriteIO \<Rightarrow> string \<Rightarrow> World \<Rightarrow> bool \<times> string \<times> World" where
  "applyUndo io errMsg w =
     (if undoStack w = [] then (False, ''Nothing to undo.'', w)
      else
        let u = last (undoStack w) in
        case atomicWriteLines io (undoFile u) (undoLines u) errMsg (files w) of
          (ok, msg, fs') \<Rightarrow>
            if \<not> ok then (False, msg, w\<lparr> files := fs' \<rparr>)
            else (True, msg, w\<lparr> files := fs', undoStack := butlast (undoStack w) \<rparr>))"

text \<open>The outcomes of the I/O of one mutating call: backup, clock, atomic write.\<close>

record MutIO =
  backupIO :: BackupIO
  timestamp :: string
  writeIO :: WriteIO

text \<open>
  The common tail of toggle and delete: \<open>pushUndo\<close>, \<open>backupFile\<close> into the local
  \<open>be\<close> (a failure overwrites \<open>errMsg\<close> with a warning), \<open>atomicWriteLines\<close>.
\<close>

definition commitLines :: "MutIO \<Rightarrow> string \<Rightarrow> string list \<Rightarrow> string \<Rightarrow> World \<Rightarrow> bool \<times> string \<times> World" where
  "commitLines io path ls errMsg w =
     (let w1 = pushUndo path w in
      case backupFile (backupIO io) (timestamp io) path [] w1 of
        (bok, be, w2) \<Rightarrow>
          let errMsg1 = (if \<not> bok then ''[warn] backup skipped: '' @ be else errMsg) in
          case atomicWriteLines (writeIO io) path ls errMsg1 (files w2) of
            (ok, msg, fs') \<Rightarrow> (ok, msg, w2\<lparr> files := fs' \<rparr>))"

section \<open>Toggle (section 10)\<close>

text \<open>
  The new text of the matched line in \<open>toggleList\<close>. For a disabled entry the source
  reads \<open>l[1]\<close> and calls \<open>l.substr(1)\<close> or \<open>l.substr(2)\<close>; on an empty line
  \<open>substr\<close> throws \<open>std::out_of_range\<close> (\<open>None\<close>).
\<close>

definition toggledLine :: "bool \<Rightarrow> string \<Rightarrow> string option" where
  "toggledLine en l =
     (if en then Some (''# '' @ l)
      else if l = [] then None
      else Some (trimStr (drop (if charAt l 1 = CHR '' '' then 2 else 1) l)))"

text \<open>The \<open>for (auto& l : lines)\<close> loop with its flag \<open>found\<close>.\<close>

fun toggleLoop :: "RepoEntry \<Rightarrow> bool \<Rightarrow> string list \<Rightarrow> (bool \<times> string list) option" where
  "toggleLoop repo found [] = Some (found, [])"
| "toggleLoop repo found (l # ls) =
     (if \<not> found \<and> l = display repo then
        (case toggledLine (enabled repo) l of
           None \<Rightarrow> None
         | Some l' \<Rightarrow> map_option (\<lambda>(f, r). (f, l' # r)) (toggleLoop repo True ls))
      else map_option (\<lambda>(f, r). (f, l # r)) (toggleLoop repo found ls))"

definition toggleList :: "MutIO \<Rightarrow> RepoEntry \<Rightarrow> string \<Rightarrow> World \<Rightarrow> (bool \<times> string \<times> World) Outcome" where
  "toggleList io repo errMsg w =
     (case toggleLoop repo False (readAllLines (files w) (repoFile repo)) of
        None \<Rightarrow> Uncaught ''std::out_of_range''
      | Some (found, ls) \<Rightarrow>
          if \<not> found
          then Returns (False, ''Line not found in file (changed externally?)'', w)
          else Returns (commitLines io (repoFile repo) ls errMsg w))"

text \<open>
  The first line of the range whose trimmed text starts with \<open>Enabled:\<close>, or \<open>-1\<close>.
  The indices of a range lie inside \<open>allLines\<close>.
\<close>

definition findEnabledLine :: "string list \<Rightarrow> Range \<Rightarrow> int" where
  "findEnabledLine allLines r =
     (case List.find (\<lambda>i. startsWith (trimStr (allLines ! nat i)) ''Enabled:'') [fst r..snd r] of
        None \<Rightarrow> - 1
      | Some i \<Rightarrow> i)"

definition toggleDeb822 :: "MutIO \<Rightarrow> RepoEntry \<Rightarrow> string \<Rightarrow> World \<Rightarrow> bool \<times> string \<times> World" where
  "toggleDeb822 io repo errMsg w =
     (let allLines = readAllLines (files w) (repoFile repo);
          blocks = blockRanges allLines
      in if blockIndex repo < 0 \<or> blockIndex repo \<ge> int (length blocks)
         then (False, ''Block index out of range (file changed externally?)'', w)
         else
           let b = blocks ! nat (blockIndex repo);
               enabledLine = findEnabledLine allLines b;
               newVal = (if enabled repo then ''Enabled: no'' else ''Enabled: yes'');
               allLines' = (if enabledLine \<ge> 0 then allLines[nat enabledLine := newVal]
                            else take (nat (fst b + 1)) allLines @ [newVal]
                                 @ drop (nat (fst b + 1)) allLines)
           in commitLines io (repoFile repo) allLines' errMsg w)"

section \<open>Delete (section 11)\<close>

fun deleteLoop :: "string \<Rightarrow> bool \<Rightarrow> string list \<Rightarrow> bool \<times> string list" where
  "deleteLoop d found [] = (found, [])"
| "deleteLoop d found (l # ls) =
     (if \<not> found \<and> l = d then deleteLoop d True ls
      else (case deleteLoop d found ls of (f, r) \<Rightarrow> (f, l # r)))"

text \<open>The lines whose index lies outside \<open>[bStart, bEnd]\<close>.\<close>

definition dropRange :: "string list \<Rightarrow> int \<Rightarrow> int \<Rightarrow> string list" where
  "dropRange allLines bStart bEnd =
     map snd (filter (\<lambda>(i, l). \<not> (int i \<ge> bStart \<and> int i \<le> bEnd))
                (zip [0..<length allLines] allLines))"

definition deleteRepoClean :: "MutIO \<Rightarrow> RepoEntry \<Rightarrow> string \<Rightarrow> World \<Rightarrow> bool \<times> string \<times> World" where
  "deleteRepoClean io repo errMsg w =
     (let allLines = readAllLines (files w) (repoFile repo) in
      if \<not> isDeb822 repo then
        (case deleteLoop (display repo) False allLines of
           (found, outLines) \<Rightarrow>
             if \<not> found then (False, ''Line not found in file'', w)
             else commitLines io (repoFile repo) outLines errMsg w)
      else
        let blockRanges' = blockRanges allLines in
        if blockIndex repo < 0 \<or> blockIndex repo \<ge> int (length blockRanges')
        then (False, ''Block index out of range'', w)
        else
          let bStart = fst (blockRanges' ! nat (blockIndex repo));
              bEnd0 = snd (blockRanges' ! nat (blockIndex repo));
              bEnd = (if bEnd0 + 1 < int (length allLines)
                         \<and> trimStr (allLines ! nat (bEnd0 + 1)) = []
                      then bEnd0 + 1 else bEnd0)
          in commitLines io (repoFile repo) (dropRange allLines bStart bEnd) errMsg w)"

section \<open>Add and import: writes through an appending stream\<close>

text \<open>
  \<open>std::ofstream f(dest, std::ios::app)\<close> and what follows: the file cannot be opened;
  the stream goes bad after some bytes of the data reached the file; or all bytes are
  appended. Opening in append mode creates a missing file.
\<close>

datatype AppendIO = AppendOpenFails | AppendShort nat | AppendSucceeds

definition appendBytes :: "(string \<rightharpoonup> string) \<Rightarrow> string \<Rightarrow> string \<Rightarrow> (string \<rightharpoonup> string)" where
  "appendBytes fs path bytes =
     fs(path \<mapsto> (case fs path of None \<Rightarrow> [] | Some content \<Rightarrow> content) @ bytes)"

definition mainList :: string where
  "mainList = ''/etc/apt/sources.list''"

text \<open>
  The \<open>KEY_F(3)\<close> case of the event loop in \<open>main\<close>, from the answers of its two input
  dialogs on: the new line and the target file. It returns the status text, the error
  flag of \<open>setStatus\<close> and the world. The dash of the third status text is the three
  bytes of its UTF-8 encoding.
\<close>

definition addHandler ::
  "bool \<Rightarrow> BackupIO \<Rightarrow> string \<Rightarrow> AppendIO \<Rightarrow> string \<Rightarrow> string \<Rightarrow> World
     \<Rightarrow> (string \<times> bool) \<times> World" where
  "addHandler readOnly bio ts aio newLine destInput w =
     (if readOnly then ((''Read-only mode.'', True), w)
      else if newLine = [] then ((''Add cancelled.'', False), w)
      else if \<not> startsWith newLine ''deb''
        then ((''Invalid '' @ [CHR 0xE2, CHR 0x80, CHR 0x94] @ '' must start with ''
                 @ [CHR 0x27] @ ''deb'' @ [CHR 0x27] @ ''.'', True), w)
      else
        let dest = (if destInput = [] then mainList else destInput);
            w1 = pushUndo dest w;
            w2 = snd (snd (backupFile bio ts dest [] w1))
        in case aio of
             AppendOpenFails \<Rightarrow> ((''Cannot open '' @ dest, True), w2)
           | AppendShort n \<Rightarrow>
               ((''Write error!'', True),
                w2\<lparr> files := appendBytes (files w2) dest (take n (newLine @ [CHR 0x0A])) \<rparr>)
           | AppendSucceeds \<Rightarrow>
               ((''Repository added to '' @ dest, False),
                w2\<lparr> files := appendBytes (files w2) dest (newLine @ [CHR 0x0A]) \<rparr>))"

text \<open>
  The duplicate check of \<open>importRepos\<close>: \<open>t.substr(4)\<close> is evaluated in every
  iteration over \<open>existing\<close> and throws \<open>std::out_of_range\<close> when \<open>t\<close> has fewer than
  four bytes (\<open>None\<close>).
\<close>

fun dupLoop :: "string \<Rightarrow> string list \<Rightarrow> bool option" where
  "dupLoop t [] = Some False"
| "dupLoop t (ex # rest) =
     (if length t < 4 then None
      else if findStr (toLower ex) (toLower (drop 4 t)) then Some True
      else dupLoop t rest)"

text \<open>The \<open>while (getline)\<close> loop of \<open>importRepos\<close>: the lines it sends to \<open>out\<close>.\<close>

fun importLoop :: "string list \<Rightarrow> string list \<Rightarrow> string list option" where
  "importLoop existing [] = Some []"
| "importLoop existing (line # rest) =
     (let t = trimStr line in
      if t = [] \<or> charAt t 0 = CHR ''#'' then importLoop existing rest
      else if \<not> startsWith t ''deb'' then importLoop existing rest
      else (case dupLoop t existing of
              None \<Rightarrow> None
            | Some dup \<Rightarrow>
                (case importLoop existing rest of
                   None \<Rightarrow> None
                 | Some out \<Rightarrow> Some (if dup then out else t # out))))"

text \<open>\<open>std::to_string\<close> of a count.\<close>

fun to_string :: "nat \<Rightarrow> string" where
  "to_string n =
     (if n < 10 then [char_of (48 + n)]
      else to_string (n div 10) @ [char_of (48 + n mod 10)])"

definition importRepos ::
  "AppendIO \<Rightarrow> string \<Rightarrow> RepoEntry list \<Rightarrow> string \<Rightarrow> World \<Rightarrow> (bool \<times> string \<times> World) Outcome" where
  "importRepos aio path g_repos errMsg w =
     (case files w path of
        None \<Rightarrow> Returns (False, ''Cannot open '' @ path, w)
      | Some content \<Rightarrow>
          let existing = map (\<lambda>r. trimStr (display r)) g_repos in
          if aio = AppendOpenFails
          then Returns (False, ''Cannot open /etc/apt/sources.list for append'', w)
          else
            (case importLoop existing (getlines content) of
               None \<Rightarrow> Uncaught ''std::out_of_range''
             | Some out \<Rightarrow>
                 let bytes = writeLines out;
                     written = (case aio of AppendShort n \<Rightarrow> take n bytes | _ \<Rightarrow> bytes);
                     added = length out
                 in Returns (True,
                      (if added = 0 then ''No new repos found to import.''
                       else to_string added @ '' repo(s) imported.''),
                      w\<lparr> files := appendBytes (files w) mainList written \<rparr>)))"

section \<open>Observing results\<close>

fun outcomeOk :: "(bool \<times> string \<times> World) Outcome \<Rightarrow> bool" where
  "outcomeOk (Returns (ok, msg, w)) = ok"
| "outcomeOk (Uncaught x) = False"

text \<open>
  The world a call returned with. A call that threw returns no world; the function then
  gives back its first argument. That is the world of the throw for \<open>toggleList\<close>, whose
  only throw lies in its loop, before \<open>pushUndo\<close>, \<open>backupFile\<close> and
  \<open>atomicWriteLines\<close>. It is not for \<open>importRepos\<close>, which has opened its output
  stream by then: there the function is applied only to calls that return.
\<close>

fun outcomeWorld :: "World \<Rightarrow> (bool \<times> string \<times> World) Outcome \<Rightarrow> World" where
  "outcomeWorld w0 (Returns (ok, msg, w)) = w"
| "outcomeWorld w0 (Uncaught x) = w0"

text \<open>A file that is empty or ends with a newline byte.\<close>

definition newlineTerminated :: "string \<Rightarrow> bool" where
  "newlineTerminated content = (content = [] \<or> last content = CHR 0x0A)"

text \<open>
  The toggle of a disabled one-line entry as the specification words it: strip exactly
  one leading \<open>#\<close> and, if present, one following space, and leave the rest.
\<close>

fun stripCommentMarker :: "string \<Rightarrow> string" where
  "stripCommentMarker (c # d # rest) =
     (if c = CHR ''#'' then (if d = CHR '' '' then rest else d # rest) else c # d # rest)"
| "stripCommentMarker [c] = (if c = CHR ''#'' then [] else [c])"
| "stripCommentMarker [] = []"

section \<open>Repository metadata (section 13)\<close>

record RepoMeta =
  origin :: string
  codename :: string
  metaSuite :: string
  version :: string
  date :: string
  description :: string
  lastUpdate :: string
  reachable :: bool
  error :: string

definition emptyMeta :: RepoMeta where
  "emptyMeta = \<lparr> origin = [], codename = [], metaSuite = [], version = [], date = [],
                   description = [], lastUpdate = [], reachable = False, error = [] \<rparr>"

text \<open>
  What the probe reads from outside: the files of the apt cache (\<open>None\<close>: the file
  cannot be opened), the modification time \<open>stat\<close> reports, formatted (\<open>None\<close>:
  \<open>stat\<close> fails), and the network: whether the name resolves and the connection to host
  and port completes within the timeout.
\<close>

record ProbeEnv =
  cacheFiles :: "string \<rightharpoonup> string"
  cacheMtime :: "string \<rightharpoonup> string"
  netConnect :: "string \<Rightarrow> string \<Rightarrow> int \<Rightarrow> bool"

text \<open>\<open>s.find(n)\<close> as a position, and \<open>s.rfind(c)\<close> for one byte.\<close>

fun findPos :: "string \<Rightarrow> string \<Rightarrow> nat option" where
  "findPos [] n = (if n = [] then Some 0 else None)"
| "findPos (c # cs) n =
     (if startsWith (c # cs) n then Some 0 else map_option Suc (findPos cs n))"

definition rfindChar :: "string \<Rightarrow> char \<Rightarrow> nat option" where
  "rfindChar s c =
     (if c \<in> set s then Some (length s - 1 - length (takeWhile (\<lambda>d. d \<noteq> c) (rev s)))
      else None)"

definition replaceSlash :: "string \<Rightarrow> string" where
  "replaceSlash s = map (\<lambda>c. if c = CHR ''/'' then CHR ''_'' else c) s"

definition cacheRelPath :: "RepoEntry \<Rightarrow> string" where
  "cacheRelPath repo =
     (let host0 = (case findPos (uri repo) ''://'' of
                     Some spos \<Rightarrow> drop (spos + 3) (uri repo)
                   | None \<Rightarrow> uri repo);
          host = rev (dropWhile (\<lambda>c. c = CHR ''_'') (rev (replaceSlash host0)))
      in ''/var/lib/apt/lists/'' @ host @ ''_dists_'' @ replaceSlash (suite repo) @ ''_Release'')"

definition metaLineStep :: "RepoMeta \<Rightarrow> string \<Rightarrow> RepoMeta" where
  "metaLineStep m line =
     (if startsWith line ''Origin:'' then m\<lparr> origin := trimStr (drop 7 line) \<rparr>
      else if startsWith line ''Codename:'' then m\<lparr> codename := trimStr (drop 9 line) \<rparr>
      else if startsWith line ''Suite:'' then m\<lparr> metaSuite := trimStr (drop 6 line) \<rparr>
      else if startsWith line ''Version:'' then m\<lparr> version := trimStr (drop 8 line) \<rparr>
      else if startsWith line ''Date:'' then m\<lparr> date := trimStr (drop 5 line) \<rparr>
      else if startsWith line ''Description:'' then m\<lparr> description := trimStr (drop 12 line) \<rparr>
      else m)"

definition metaFromCache :: "ProbeEnv \<Rightarrow> RepoEntry \<Rightarrow> RepoMeta" where
  "metaFromCache env repo =
     (if uri repo = [] \<or> suite repo = [] then emptyMeta
      else
        let relPath = cacheRelPath repo;
            m = (case cacheMtime env relPath of
                   Some t \<Rightarrow> emptyMeta\<lparr> lastUpdate := t \<rparr>
                 | None \<Rightarrow> emptyMeta)
        in case cacheFiles env relPath of
             None \<Rightarrow> m\<lparr> error := ''Cache not found (run apt update)'' \<rparr>
           | Some content \<Rightarrow> foldl metaLineStep m (getlines content))"

text \<open>
  \<open>checkReachable\<close>: host and port are cut out of the URI; resolving and connecting are
  the network's.
\<close>

definition checkReachable :: "ProbeEnv \<Rightarrow> string \<Rightarrow> int \<Rightarrow> bool" where
  "checkReachable env u timeout_ms =
     (let host0 = (case findPos u ''://'' of Some spos \<Rightarrow> drop (spos + 3) u | None \<Rightarrow> u);
          port0 = (if startsWith u ''https'' then ''443'' else ''80'');
          host1 = (case findPos host0 ''/'' of Some slash \<Rightarrow> take slash host0 | None \<Rightarrow> host0);
          port = (case rfindChar host1 CHR '':'' of
                    Some colon \<Rightarrow> drop (colon + 1) host1 | None \<Rightarrow> port0);
          host = (case rfindChar host1 CHR '':'' of
                    Some colon \<Rightarrow> take colon host1 | None \<Rightarrow> host1)
      in netConnect env host port timeout_ms)"

text \<open>
  \<open>fetchMetaAsync\<close>: nothing is started while a probe is running; otherwise the worker
  thread computes one result, the cache lookup first and the reachability after it.
\<close>

definition fetchMetaAsync :: "ProbeEnv \<Rightarrow> bool \<Rightarrow> RepoEntry \<Rightarrow> RepoMeta option" where
  "fetchMetaAsync env running repo =
     (if running then None
      else Some ((metaFromCache env repo)\<lparr> reachable := checkReachable env (uri repo) 3000 \<rparr>))"

text \<open>The index of the first line equal to \<open>d\<close> (the length of the list when there is none).\<close>

definition firstMatch :: "string \<Rightarrow> string list \<Rightarrow> nat" where
  "firstMatch d ls = length (takeWhile (\<lambda>l. l \<noteq> d) ls)"

text \<open>
  One mutation of the file \<open>f\<close> takes the world \<open>w\<close> to \<open>w1\<close>: a toggle or a delete
  that found its line or block, or an add that passed its validation. These are the
  calls that reach \<open>pushUndo\<close>; their own write may succeed or fail.
\<close>

inductive singleMutation :: "World \<Rightarrow> string \<Rightarrow> World \<Rightarrow> bool" where
  byToggleList:
    "toggleList io repo errMsg w = Returns (ok, msg, w1) \<Longrightarrow>
     display repo \<in> set (readAllLines (files w) (repoFile repo)) \<Longrightarrow>
     singleMutation w (repoFile repo) w1"
| byToggleDeb822:
    "toggleDeb822 io repo errMsg w = (ok, msg, w1) \<Longrightarrow>
     0 \<le> blockIndex repo \<Longrightarrow>
     blockIndex repo < int (length (blockRanges (readAllLines (files w) (repoFile repo)))) \<Longrightarrow>
     singleMutation w (repoFile repo) w1"
| byDeleteLine:
    "deleteRepoClean io repo errMsg w = (ok, msg, w1) \<Longrightarrow>
     \<not> isDeb822 repo \<Longrightarrow>
     display repo \<in> set (readAllLines (files w) (repoFile repo)) \<Longrightarrow>
     singleMutation w (repoFile repo) w1"
| byDeleteBlock:
    "deleteRepoClean io repo errMsg w = (ok, msg, w1) \<Longrightarrow>
     isDeb822 repo \<Longrightarrow>
     0 \<le> blockIndex repo \<Longrightarrow>
     blockIndex repo < int (length (blockRanges (readAllLines (files w) (repoFile repo)))) \<Longrightarrow>
     singleMutation w (repoFile repo) w1"
| byAdd:
    "addHandler False bio ts aio newLine destInput w = (st, w1) \<Longrightarrow>
     newLine \<noteq> [] \<Longrightarrow>
     startsWith newLine ''deb'' \<Longrightarrow>
     singleMutation w (if destInput = [] then mainList else destInput) w1"

text \<open>
  A one-line directive in the form the toggle itself writes: an active line without
  surrounding whitespace, a disabled line made of \<open>"# "\<close> and a text without surrounding
  whitespace.
\<close>

definition canonicalLine :: "bool \<Rightarrow> string \<Rightarrow> bool" where
  "canonicalLine en l =
     (if en then trimStr l = l else take 2 l = ''# '' \<and> trimStr (drop 2 l) = drop 2 l)"

text \<open>The two texts \<open>toggleDeb822\<close> writes for the Enabled line.\<close>

definition enabledLineText :: "bool \<Rightarrow> string" where
  "enabledLineText en = (if en then ''Enabled: yes'' else ''Enabled: no'')"

text \<open>
  A block in the form \<open>toggleDeb822\<close> itself leaves behind: exactly one line of the range
  has a trimmed text starting with \<open>Enabled:\<close>, and it reads \<open>Enabled: yes\<close> for an
  enabled entry, \<open>Enabled: no\<close> for a disabled one.
\<close>

definition canonicalBlock :: "bool \<Rightarrow> string list \<Rightarrow> Range \<Rightarrow> bool" where
  "canonicalBlock en allLines r =
     (let i = findEnabledLine allLines r in
      0 \<le> i
      \<and> allLines ! nat i = enabledLineText en
      \<and> list_all (\<lambda>j. j = i \<or> \<not> startsWith (trimStr (allLines ! nat j)) ''Enabled:'')
           [fst r..snd r])"

text \<open>
  The pieces of \<open>toggleDeb822\<close> and \<open>deleteRepoClean\<close> that depend on the entry's block
  index, named so that theorems can speak of them: the range \<open>blocks[repo.blockIndex]\<close>
  both functions take; the lines \<open>toggleDeb822\<close> hands to the write for that range
  (the Enabled line replaced, or a new one inserted after the first line of the range);
  and the \<open>bEnd\<close> of \<open>deleteRepoClean\<close>, which swallows one blank line after the range.
\<close>

definition designatedRange :: "string list \<Rightarrow> RepoEntry \<Rightarrow> Range" where
  "designatedRange allLines repo = blockRanges allLines ! nat (blockIndex repo)"

definition toggledLines :: "string list \<Rightarrow> Range \<Rightarrow> bool \<Rightarrow> string list" where
  "toggledLines allLines b en =
     (let newVal = (if en then ''Enabled: no'' else ''Enabled: yes'')
      in if findEnabledLine allLines b \<ge> 0
         then allLines[nat (findEnabledLine allLines b) := newVal]
         else take (nat (fst b + 1)) allLines @ [newVal] @ drop (nat (fst b + 1)) allLines)"

definition swallowedEnd :: "string list \<Rightarrow> Range \<Rightarrow> int" where
  "swallowedEnd allLines b =
     (if snd b + 1 < int (length allLines) \<and> trimStr (allLines ! nat (snd b + 1)) = []
      then snd b + 1 else snd b)"

section \<open>Properties of the one-line parser\<close>

lemma parseListLine_enabled:
  assumes "parseListLine path line = Some e"
  shows "display e = line"
    and "enabled e = (charAt (trimStr line) 0 \<noteq> CHR ''#'')"
    and "trimStr line \<noteq> []"
  using assms by (auto simp: parseListLine_def Let_def split: if_splits)

text \<open>
  C7. For every entry produced by the one-line parser, the entry is disabled exactly when
  its display text, after trimming surrounding whitespace, begins with the character
  \<open>#\<close>.
\<close>

theorem parseListFile_enabled_iff_hash:
  "\<forall>e \<in> set (parseListFile fs path).
     (\<not> enabled e) = (\<exists>rest. trimStr (display e) = CHR ''#'' # rest)"
proof
  fix e
  assume "e \<in> set (parseListFile fs path)"
  then obtain content where "e \<in> set (parseListLines path (getlines content))"
    by (auto simp: parseListFile_def split: option.splits)
  then obtain line where pl: "parseListLine path line = Some e"
    by (auto simp: parseListLines_def List.map_filter_def)
  from parseListLine_enabled[OF pl]
  show "(\<not> enabled e) = (\<exists>rest. trimStr (display e) = CHR ''#'' # rest)"
    by (cases "trimStr line") (auto simp: charAt_def)
qed

theorem parseListFile_enabled_iff_hash_witness:
  "\<lparr> repoFile = ''/a'', display = ''#deb u s'', enabled = False, isDeb822 = False,
      blockIndex = - 1, uri = ''u'', suite = ''s'', components = [], types = ''deb'' \<rparr>
     \<in> set (parseListFile [''/a'' \<mapsto> ''#deb u s'' @ [CHR 0x0A]] ''/a'')
   \<and> (\<exists>rest. trimStr ''#deb u s'' = CHR ''#'' # rest)"
proof -
  let ?e = "\<lparr> repoFile = ''/a'', display = ''#deb u s'', enabled = False, isDeb822 = False,
      blockIndex = - 1, uri = ''u'', suite = ''s'', components = [], types = ''deb'' \<rparr>"
  let ?fs = "[''/a'' \<mapsto> ''#deb u s'' @ [CHR 0x0A]]"
  have mem: "?e \<in> set (parseListFile ?fs ''/a'')"
    by code_simp
  from parseListFile_enabled_iff_hash[of ?fs "''/a''"] mem
  have "(\<not> enabled ?e) = (\<exists>rest. trimStr (display ?e) = CHR ''#'' # rest)"
    by blast
  with mem show ?thesis by simp
qed

section \<open>The two block enumerations\<close>

lemma sourcesLoop_groupLoop:
  "sourcesLoop path block idx ls = fst (parseBlocks path idx (groupLoop block ls))"
  by (induction ls arbitrary: block idx) (auto split: prod.splits)

lemma rangesLoop_groupLoop:
  "i = int (length pre + length block) \<Longrightarrow> (block \<noteq> [] \<longrightarrow> bs = int (length pre)) \<Longrightarrow>
   map (blockLines (pre @ block @ ls)) (rangesLoop ls i bs (block \<noteq> [])) = groupLoop block ls"
proof (induction ls arbitrary: pre block bs i)
  case Nil
  then show ?case by (auto simp: blockLines_def)
next
  case (Cons l ls)
  show ?case
  proof (cases "trimStr l = []")
    case blank: True
    show ?thesis
    proof (cases "block = []")
      case True
      with blank Cons.prems Cons.IH[of "i + 1" "pre @ [l]" "[]" bs] show ?thesis
        by (simp add: Let_def)
    next
      case False
      have bl: "blockLines (pre @ block @ l # ls) (int (length pre), i - 1) = block"
        using False Cons.prems by (simp add: blockLines_def)
      from blank False Cons.prems Cons.IH[of "i + 1" "pre @ block @ [l]" "[]" "int (length pre)"] bl
      show ?thesis by (simp add: Let_def)
    qed
  next
    case nonblank: False
    show ?thesis
    proof (cases "block = []")
      case True
      with nonblank Cons.prems Cons.IH[of "i + 1" pre "[l]" i] show ?thesis
        by (simp add: Let_def)
    next
      case False
      with nonblank Cons.prems Cons.IH[of "i + 1" pre "block @ [l]" bs] show ?thesis
        by (simp add: Let_def)
    qed
  qed
qed

lemma parseSourcesLines_physicalBlocks:
  "parseSourcesLines path ls = fst (parseBlocks path 0 (physicalBlocks ls))"
  using rangesLoop_groupLoop[of 0 "[]" "[]" "- 1" ls]
  by (simp add: parseSourcesLines_def physicalBlocks_def blockRanges_def sourcesLoop_groupLoop)

lemma parseBlocks_append:
  "parseBlocks path idx (xs @ ys) =
     (fst (parseBlocks path idx xs) @ fst (parseBlocks path (snd (parseBlocks path idx xs)) ys),
      snd (parseBlocks path (snd (parseBlocks path idx xs)) ys))"
  by (induction xs arbitrary: idx) (auto split: prod.splits)

lemma parseBlocks_snoc:
  "fst (parseBlocks path idx (B @ [b])) =
     fst (parseBlocks path idx B) @ fst (processBlock path (snd (parseBlocks path idx B)) b)"
  by (simp add: parseBlocks_append split_beta)

lemma parseBlocks_concat:
  "fst (parseBlocks path idx B) =
     concat (map (\<lambda>k. fst (processBlock path (snd (parseBlocks path idx (take k B))) (B ! k)))
               [0..<length B])"
proof (induction B rule: rev_induct)
  case Nil
  then show ?case by simp
next
  case (snoc b B)
  let ?f = "\<lambda>C k. fst (processBlock path (snd (parseBlocks path idx (take k C))) (C ! k))"
  have A: "map (?f (B @ [b])) [0..<length B] = map (?f B) [0..<length B]"
    by (rule map_cong) (auto simp: nth_append)
  have B: "?f (B @ [b]) (length B) = fst (processBlock path (snd (parseBlocks path idx B)) b)"
    by simp
  have "concat (map (?f (B @ [b])) [0..<length (B @ [b])])
        = concat (map (?f (B @ [b])) [0..<length B]) @ ?f (B @ [b]) (length B)"
    by simp
  also have "\<dots> = concat (map (?f B) [0..<length B]) @ fst (processBlock path (snd (parseBlocks path idx B)) b)"
    unfolding A B ..
  also have "\<dots> = fst (parseBlocks path idx (B @ [b]))"
    unfolding parseBlocks_snoc snoc.IH[symmetric] ..
  finally show ?case by (rule sym)
qed

lemma parseBlocks_counter:
  "snd (parseBlocks path idx B) = idx + int (length (filter (\<lambda>b. \<not> blockRejected (scanBlock b)) B))"
  by (induction B arbitrary: idx) (simp_all add: processBlock_def Let_def split_beta)

lemma processBlock_entries:
  "e \<in> set (fst (processBlock path idx b)) \<Longrightarrow> blockIndex e = idx \<and> \<not> blockRejected (scanBlock b)"
  by (auto simp: processBlock_def Let_def blockEntry_def split: if_splits)

lemma processBlock_accepted_nonempty:
  "\<not> blockRejected (scanBlock b) \<Longrightarrow> fst (processBlock path idx b) \<noteq> []"
  by (auto simp: processBlock_def Let_def blockRejected_def)

lemma rangesLoop_starts:
  "(inB \<longrightarrow> bs < i) \<Longrightarrow>
   sorted_wrt (<) (map fst (rangesLoop ls i bs inB)) \<and>
   (\<forall>r \<in> set (rangesLoop ls i bs inB). (if inB then bs else i) \<le> fst r)"
proof (induction ls arbitrary: i bs inB)
  case Nil
  then show ?case by simp
next
  case (Cons l ls)
  show ?case
  proof (cases "trimStr l = []")
    case blank: True
    show ?thesis
    proof (cases inB)
      case True
      with blank Cons.prems Cons.IH[of False bs "i + 1"] show ?thesis
        by (fastforce simp: Let_def)
    next
      case False
      with blank Cons.prems Cons.IH[of False bs "i + 1"] show ?thesis
        by (fastforce simp: Let_def)
    qed
  next
    case nonblank: False
    show ?thesis
    proof (cases inB)
      case True
      with nonblank Cons.prems Cons.IH[of True bs "i + 1"] show ?thesis
        by (fastforce simp: Let_def)
    next
      case False
      with nonblank Cons.prems Cons.IH[of True i "i + 1"] show ?thesis
        by (fastforce simp: Let_def)
    qed
  qed
qed

lemma blockRanges_distinct_starts: "sorted_wrt (<) (map fst (blockRanges ls))"
  using rangesLoop_starts[of False "- 1" 0 ls] by (simp add: blockRanges_def)

lemma blockRanges_nth_neq:
  assumes "a < b" "b < length (blockRanges ls)"
  shows "blockRanges ls ! a \<noteq> blockRanges ls ! b"
proof -
  from assms have "b < length (map fst (blockRanges ls))" by simp
  from sorted_wrt_nth_less[OF blockRanges_distinct_starts assms(1) this]
  have "map fst (blockRanges ls) ! a < map fst (blockRanges ls) ! b" .
  with assms show ?thesis by auto
qed

lemma groupLoop_nonblank:
  "\<forall>l \<in> set block. trimStr l \<noteq> [] \<Longrightarrow>
   \<forall>b \<in> set (groupLoop block ls). b \<noteq> [] \<and> (\<forall>l \<in> set b. trimStr l \<noteq> [])"
proof (induction ls arbitrary: block)
  case Nil
  then show ?case by simp
next
  case (Cons a ls)
  have e: "\<forall>b \<in> set (groupLoop [] ls). b \<noteq> [] \<and> (\<forall>l \<in> set b. trimStr l \<noteq> [])"
    by (rule Cons.IH) simp
  show ?case
  proof (cases "trimStr a = []")
    case True
    with e Cons.prems Cons.IH[of block] show ?thesis by simp
  next
    case False
    with Cons.prems have "\<forall>l \<in> set (block @ [a]). trimStr l \<noteq> []" by simp
    from Cons.IH[OF this] False show ?thesis by simp
  qed
qed

lemma groupLoop_concat:
  "concat (groupLoop block ls) = block @ filter (\<lambda>l. trimStr l \<noteq> []) ls"
  by (induction ls arbitrary: block) auto

lemma physicalBlocks_groupLoop: "physicalBlocks ls = groupLoop [] ls"
  using rangesLoop_groupLoop[of 0 "[]" "[]" "- 1" ls]
  by (simp add: physicalBlocks_def blockRanges_def)

lemma parser_block_indices:
  "parseSourcesLines path ls
     = concat (map (entriesOfBlock path ls) [0..<length (blockRanges ls)])
   \<and> concat (physicalBlocks ls) = filter (\<lambda>l. trimStr l \<noteq> []) ls
   \<and> (\<forall>k<length (blockRanges ls).
        physicalBlocks ls ! k \<noteq> []
        \<and> (blockAcceptedAt ls k \<longrightarrow> entriesOfBlock path ls k \<noteq> [])
        \<and> (\<forall>e \<in> set (entriesOfBlock path ls k).
              blockAcceptedAt ls k
              \<and> blockIndex e = int (length (filter (\<lambda>b. \<not> blockRejected (scanBlock b))
                                               (take k (physicalBlocks ls))))
              \<and> ((\<exists>j<k. \<not> blockAcceptedAt ls j) \<longrightarrow>
                   0 \<le> blockIndex e \<and> nat (blockIndex e) < k
                   \<and> blockRanges ls ! nat (blockIndex e) \<noteq> blockRanges ls ! k)))"
proof (intro conjI allI impI ballI)
  have len: "length (physicalBlocks ls) = length (blockRanges ls)"
    by (simp add: physicalBlocks_def)
  show "parseSourcesLines path ls
          = concat (map (entriesOfBlock path ls) [0..<length (blockRanges ls)])"
    unfolding parseSourcesLines_physicalBlocks parseBlocks_concat[of path 0] len entriesOfBlock_def ..
  show "concat (physicalBlocks ls) = filter (\<lambda>l. trimStr l \<noteq> []) ls"
    by (simp add: physicalBlocks_groupLoop groupLoop_concat)
  fix k assume k: "k < length (blockRanges ls)"
  with len have "physicalBlocks ls ! k \<in> set (groupLoop [] ls)"
    by (metis nth_mem physicalBlocks_groupLoop)
  with groupLoop_nonblank[of "[]" ls] show "physicalBlocks ls ! k \<noteq> []" by simp
  {
    assume "blockAcceptedAt ls k"
    then show "entriesOfBlock path ls k \<noteq> []"
      by (simp add: blockAcceptedAt_def entriesOfBlock_def processBlock_accepted_nonempty)
  }
  fix e assume e: "e \<in> set (entriesOfBlock path ls k)"
  from processBlock_entries[OF e[unfolded entriesOfBlock_def]]
  have idx: "blockIndex e = snd (parseBlocks path 0 (take k (physicalBlocks ls)))"
    and acc: "blockAcceptedAt ls k"
    by (simp_all add: blockAcceptedAt_def)
  show "blockAcceptedAt ls k" by (rule acc)
  show cnt: "blockIndex e = int (length (filter (\<lambda>b. \<not> blockRejected (scanBlock b))
                                               (take k (physicalBlocks ls))))"
    by (simp add: idx parseBlocks_counter)
  assume "\<exists>j<k. \<not> blockAcceptedAt ls j"
  then obtain j where j: "j < k" "\<not> blockAcceptedAt ls j" by blast
  from j k len have "physicalBlocks ls ! j \<in> set (take k (physicalBlocks ls))"
    by (metis in_set_conv_nth length_take min.absorb2 nth_take order_less_imp_le)
  with j(2) have "length (filter (\<lambda>b. \<not> blockRejected (scanBlock b)) (take k (physicalBlocks ls)))
                   < length (take k (physicalBlocks ls))"
    by (intro length_filter_less[where x = "physicalBlocks ls ! j"]) (simp_all add: blockAcceptedAt_def)
  with k len have lt: "nat (blockIndex e) < k" by (simp add: cnt)
  show "0 \<le> blockIndex e" by (simp add: cnt)
  show "nat (blockIndex e) < k" by (rule lt)
  show "blockRanges ls ! nat (blockIndex e) \<noteq> blockRanges ls ! k"
    by (rule blockRanges_nth_neq[OF lt k])
qed

section \<open>The write pipeline\<close>

lemma atomicWriteLines_ok_iff:
  "fst (atomicWriteLines io path ls errMsg fs) = (io = WriteSucceeds)"
  by (cases io) (simp_all add: atomicWriteLines_def)

lemma atomicWriteLines_target:
  "snd (snd (atomicWriteLines io path ls errMsg fs)) path
     = (if io = WriteSucceeds then Some (writeLines ls) else fs path)"
  by (cases io) (simp_all add: atomicWriteLines_def)

lemma atomicWriteLines_fail_msg:
  assumes "atomicWriteLines io path ls errMsg fs = (False, msg, fs')"
  shows "hd msg = CHR ''C'' \<or> hd msg = CHR ''W'' \<or> hd msg = CHR ''r''"
proof (cases io)
  case TmpOpenFails
  with assms have "msg = ''Cannot open tmp file''" by (simp add: atomicWriteLines_def)
  then show ?thesis by simp
next
  case (TmpWriteFails n)
  with assms have "msg = ''Write error on tmp file''" by (simp add: atomicWriteLines_def)
  then show ?thesis by simp
next
  case (RenameFails err)
  with assms have "msg = ''rename() failed: '' @ err" by (simp add: atomicWriteLines_def)
  then show ?thesis by simp
next
  case WriteSucceeds
  with assms show ?thesis by (simp add: atomicWriteLines_def)
qed

lemma backupDest_neq: "backupDest dir src ts \<noteq> src"
proof
  assume "backupDest dir src ts = src"
  then have "length (backupDest dir src ts) = length src" by simp
  then show False by (simp add: backupDest_def)
qed

lemma backupFile_world:
  "backupFile io ts src errMsg w = (ok, msg, w') \<Longrightarrow>
     undoStack w' = undoStack w \<and> backupDir w' = backupDir w \<and> files w' src = files w src"
  by (cases io) (auto simp: backupFile_def backupDest_neq split: option.splits)

lemma pushUndo_world:
  "files (pushUndo path w) = files w" "backupDir (pushUndo path w) = backupDir w"
  by (simp_all add: pushUndo_def Let_def)

lemma pushUndo_last:
  "undoStack (pushUndo path w) \<noteq> []"
  "last (undoStack (pushUndo path w))
     = \<lparr> undoFile = path, undoLines = readAllLines (files w) path \<rparr>"
  by (simp_all add: pushUndo_def Let_def)

lemma commitLines_result:
  obtains msg w' where
    "commitLines io path ls errMsg w = (writeIO io = WriteSucceeds, msg, w')"
    "undoStack w' = undoStack (pushUndo path w)"
    "backupDir w' = backupDir w"
    "files w' path = (if writeIO io = WriteSucceeds then Some (writeLines ls) else files w path)"
proof -
  obtain bok be w2 where b: "backupFile (backupIO io) (timestamp io) path [] (pushUndo path w) = (bok, be, w2)"
    by (rule prod_cases3)
  let ?e1 = "if \<not> bok then ''[warn] backup skipped: '' @ be else errMsg"
  obtain ok msg fs' where a: "atomicWriteLines (writeIO io) path ls ?e1 (files w2) = (ok, msg, fs')"
    by (rule prod_cases3)
  from a atomicWriteLines_ok_iff[of "writeIO io" path ls ?e1 "files w2"]
  have ok: "ok = (writeIO io = WriteSucceeds)" by simp
  from a atomicWriteLines_target[of "writeIO io" path ls ?e1 "files w2"]
  have tgt: "fs' path = (if writeIO io = WriteSucceeds then Some (writeLines ls) else files w2 path)"
    by simp
  from backupFile_world[OF b] have w2: "undoStack w2 = undoStack (pushUndo path w)"
    "backupDir w2 = backupDir w" "files w2 path = files w path"
    by (simp_all add: pushUndo_world)
  have "commitLines io path ls errMsg w = (ok, msg, w2\<lparr> files := fs' \<rparr>)"
    using a b by (simp add: commitLines_def Let_def)
  with ok tgt w2 show ?thesis by (intro that[of msg "w2\<lparr> files := fs' \<rparr>"]) simp_all
qed

lemma commitLines_fail_msg:
  assumes "commitLines io path ls errMsg w = (False, msg, w')"
  shows "hd msg = CHR ''C'' \<or> hd msg = CHR ''W'' \<or> hd msg = CHR ''r''"
proof -
  obtain bok be w2 where b: "backupFile (backupIO io) (timestamp io) path [] (pushUndo path w) = (bok, be, w2)"
    by (rule prod_cases3)
  let ?e1 = "if \<not> bok then ''[warn] backup skipped: '' @ be else errMsg"
  obtain ok m fs' where a: "atomicWriteLines (writeIO io) path ls ?e1 (files w2) = (ok, m, fs')"
    by (rule prod_cases3)
  from assms a b have "ok = False" "m = msg" by (simp_all add: commitLines_def Let_def)
  with a have "atomicWriteLines (writeIO io) path ls ?e1 (files w2) = (False, msg, fs')" by simp
  then show ?thesis by (rule atomicWriteLines_fail_msg)
qed

section \<open>The search loops\<close>

lemma toggleLoop_absent:
  "display repo \<notin> set ls \<Longrightarrow> toggleLoop repo found ls = Some (found, ls)"
  by (induction ls) auto

lemma toggleLoop_after: "toggleLoop repo True ls = Some (True, ls)"
  by (induction ls) auto

lemma toggleLoop_present:
  "display repo \<in> set ls \<Longrightarrow> toggledLine (enabled repo) (display repo) = Some l' \<Longrightarrow>
   toggleLoop repo False ls
     = Some (True, ls[length (takeWhile (\<lambda>l. l \<noteq> display repo) ls) := l'])"
  by (induction ls) (auto simp: toggleLoop_after)

lemma toggleLoop_throws:
  "display repo \<in> set ls \<Longrightarrow> toggledLine (enabled repo) (display repo) = None \<Longrightarrow>
   toggleLoop repo False ls = None"
  by (induction ls) auto

lemma deleteLoop_found: "fst (deleteLoop d found ls) = (found \<or> d \<in> set ls)"
  by (induction ls arbitrary: found) (auto simp: split_beta)

section \<open>Undo and the NotFound paths\<close>

lemma applyUndo_result:
  "undoStack w \<noteq> [] \<Longrightarrow>
   applyUndo io errMsg w =
     (io = WriteSucceeds,
      fst (snd (atomicWriteLines io (undoFile (last (undoStack w))) (undoLines (last (undoStack w))) errMsg (files w))),
      w\<lparr> files := snd (snd (atomicWriteLines io (undoFile (last (undoStack w)))
                                (undoLines (last (undoStack w))) errMsg (files w))),
         undoStack := (if io = WriteSucceeds then butlast (undoStack w) else undoStack w) \<rparr>)"
  by (cases io) (simp_all add: applyUndo_def atomicWriteLines_def Let_def)

text \<open>
  C10. \<open>applyUndo\<close> pops the top snapshot only after the atomic write of its lines has
  succeeded: when the write fails, in any of its three ways, the call returns false and
  the undo stack is the one before the call, the snapshot still on top; when it succeeds
  the stack has lost exactly its last element and the file holds the snapshot's lines.
\<close>

theorem applyUndo_pops_only_after_write:
  "undoStack w \<noteq> [] \<longrightarrow>
     (io \<noteq> WriteSucceeds \<longrightarrow>
        \<not> fst (applyUndo io errMsg w)
        \<and> undoStack (snd (snd (applyUndo io errMsg w))) = undoStack w
        \<and> backupDir (snd (snd (applyUndo io errMsg w))) = backupDir w
        \<and> files (snd (snd (applyUndo io errMsg w))) (undoFile (last (undoStack w)))
            = files w (undoFile (last (undoStack w))))
   \<and> (io = WriteSucceeds \<longrightarrow>
        fst (applyUndo io errMsg w)
        \<and> undoStack (snd (snd (applyUndo io errMsg w))) = butlast (undoStack w)
        \<and> files (snd (snd (applyUndo io errMsg w))) (undoFile (last (undoStack w)))
            = Some (writeLines (undoLines (last (undoStack w)))))"
proof (intro impI conjI)
  assume ne: "undoStack w \<noteq> []"
  note r = applyUndo_result[OF ne, of io errMsg]
  note t = atomicWriteLines_target[of io "undoFile (last (undoStack w))"
              "undoLines (last (undoStack w))" errMsg "files w"]
  {
    assume f: "io \<noteq> WriteSucceeds"
    show "\<not> fst (applyUndo io errMsg w)" using f by (simp add: r)
    show "undoStack (snd (snd (applyUndo io errMsg w))) = undoStack w" using f by (simp add: r)
    show "backupDir (snd (snd (applyUndo io errMsg w))) = backupDir w" by (simp add: r)
    show "files (snd (snd (applyUndo io errMsg w))) (undoFile (last (undoStack w)))
            = files w (undoFile (last (undoStack w)))"
      using f t by (simp add: r)
  }
  {
    assume s: "io = WriteSucceeds"
    show "fst (applyUndo io errMsg w)" using s r by simp
    show "undoStack (snd (snd (applyUndo io errMsg w))) = butlast (undoStack w)"
      using s r by simp
    show "files (snd (snd (applyUndo io errMsg w))) (undoFile (last (undoStack w)))
            = Some (writeLines (undoLines (last (undoStack w))))"
      using s t r by simp
  }
qed

theorem applyUndo_pops_only_after_write_witness:
  "undoStack (snd (snd (applyUndo (RenameFails ''EACCES'') []
       \<lparr> files = [''/l'' \<mapsto> ''# deb u s'' @ [CHR 0x0A]],
         undoStack = [\<lparr> undoFile = ''/l'', undoLines = [''deb u s''] \<rparr>],
         backupDir = ''/b'' \<rparr>)))
     = [\<lparr> undoFile = ''/l'', undoLines = [''deb u s''] \<rparr>]
   \<and> undoStack (snd (snd (applyUndo WriteSucceeds []
       \<lparr> files = [''/l'' \<mapsto> ''# deb u s'' @ [CHR 0x0A]],
         undoStack = [\<lparr> undoFile = ''/l'', undoLines = [''deb u s''] \<rparr>],
         backupDir = ''/b'' \<rparr>))) = []"
proof -
  let ?w = "\<lparr> files = [''/l'' \<mapsto> ''# deb u s'' @ [CHR 0x0A]],
         undoStack = [\<lparr> undoFile = ''/l'', undoLines = [''deb u s''] \<rparr>],
         backupDir = ''/b'' \<rparr>"
  have ne: "undoStack ?w \<noteq> []" by simp
  have f: "RenameFails ''EACCES'' \<noteq> WriteSucceeds" by simp
  from applyUndo_pops_only_after_write[of ?w "RenameFails ''EACCES''" "[]"] ne f
  have a: "undoStack (snd (snd (applyUndo (RenameFails ''EACCES'') [] ?w))) = undoStack ?w"
    by blast
  from applyUndo_pops_only_after_write[of ?w WriteSucceeds "[]"] ne
  have b: "undoStack (snd (snd (applyUndo WriteSucceeds [] ?w))) = butlast (undoStack ?w)"
    by blast
  from a b show ?thesis by simp
qed

text \<open>
  C9. When toggle or delete fails with NotFound, it has returned before \<open>pushUndo\<close>,
  \<open>backupFile\<close> and \<open>atomicWriteLines\<close>: the world (the files, among them those of the
  backup directory, and the undo stack) is the one before the call. The line or block
  being absent gives that failure, and no other path returns the NotFound texts.
\<close>

theorem notFound_returns_before_any_effect:
  "(display repo \<notin> set (readAllLines (files w) (repoFile repo)) \<longrightarrow>
      toggleList io repo errMsg w
        = Returns (False, ''Line not found in file (changed externally?)'', w)
      \<and> (\<not> isDeb822 repo \<longrightarrow>
           deleteRepoClean io repo errMsg w = (False, ''Line not found in file'', w)))
   \<and> (blockIndex repo < 0
        \<or> int (length (blockRanges (readAllLines (files w) (repoFile repo)))) \<le> blockIndex repo \<longrightarrow>
      toggleDeb822 io repo errMsg w
        = (False, ''Block index out of range (file changed externally?)'', w)
      \<and> (isDeb822 repo \<longrightarrow>
           deleteRepoClean io repo errMsg w = (False, ''Block index out of range'', w)))
   \<and> (\<forall>w'. toggleList io repo errMsg w
               = Returns (False, ''Line not found in file (changed externally?)'', w') \<longrightarrow> w' = w)
   \<and> (\<forall>w'. toggleDeb822 io repo errMsg w
               = (False, ''Block index out of range (file changed externally?)'', w') \<longrightarrow> w' = w)
   \<and> (\<forall>w'. deleteRepoClean io repo errMsg w = (False, ''Line not found in file'', w') \<longrightarrow> w' = w)
   \<and> (\<forall>w'. deleteRepoClean io repo errMsg w = (False, ''Block index out of range'', w') \<longrightarrow> w' = w)"
proof -
  let ?ls = "readAllLines (files w) (repoFile repo)"
  have commit: "\<And>ls msg w'. commitLines io (repoFile repo) ls errMsg w = (False, msg, w') \<Longrightarrow>
                   hd msg \<noteq> CHR ''L'' \<and> hd msg \<noteq> CHR ''B''"
    using commitLines_fail_msg by fastforce
  have p1: "display repo \<notin> set ?ls \<longrightarrow>
      toggleList io repo errMsg w
        = Returns (False, ''Line not found in file (changed externally?)'', w)
      \<and> (\<not> isDeb822 repo \<longrightarrow>
           deleteRepoClean io repo errMsg w = (False, ''Line not found in file'', w))"
  proof (intro impI conjI)
    assume a: "display repo \<notin> set ?ls"
    then show "toggleList io repo errMsg w
        = Returns (False, ''Line not found in file (changed externally?)'', w)"
      by (simp add: toggleList_def toggleLoop_absent)
    assume "\<not> isDeb822 repo"
    with a deleteLoop_found[of "display repo" False ?ls]
    show "deleteRepoClean io repo errMsg w = (False, ''Line not found in file'', w)"
      by (simp add: deleteRepoClean_def Let_def split_beta)
  qed
  have p2: "blockIndex repo < 0 \<or> int (length (blockRanges ?ls)) \<le> blockIndex repo \<longrightarrow>
      toggleDeb822 io repo errMsg w
        = (False, ''Block index out of range (file changed externally?)'', w)
      \<and> (isDeb822 repo \<longrightarrow>
           deleteRepoClean io repo errMsg w = (False, ''Block index out of range'', w))"
    by (auto simp: toggleDeb822_def deleteRepoClean_def Let_def)
  have p3: "\<forall>w'. toggleList io repo errMsg w
               = Returns (False, ''Line not found in file (changed externally?)'', w') \<longrightarrow> w' = w"
  proof (intro allI impI)
    fix w'
    assume r: "toggleList io repo errMsg w
               = Returns (False, ''Line not found in file (changed externally?)'', w')"
    show "w' = w"
    proof (cases "toggleLoop repo False ?ls")
      case None
      with r show ?thesis by (simp add: toggleList_def)
    next
      case (Some p)
      obtain found ls where p: "p = (found, ls)" by (cases p)
      show ?thesis
      proof (cases found)
        case True
        with r Some p
        have "commitLines io (repoFile repo) ls errMsg w
                = (False, ''Line not found in file (changed externally?)'', w')"
          by (simp add: toggleList_def)
        from commit[OF this] show ?thesis by simp
      next
        case False
        with r Some p show ?thesis by (simp add: toggleList_def)
      qed
    qed
  qed
  have p4: "\<forall>w'. toggleDeb822 io repo errMsg w
               = (False, ''Block index out of range (file changed externally?)'', w') \<longrightarrow> w' = w"
  proof (intro allI impI)
    fix w'
    assume r: "toggleDeb822 io repo errMsg w
               = (False, ''Block index out of range (file changed externally?)'', w')"
    show "w' = w"
    proof (cases "blockIndex repo < 0 \<or> int (length (blockRanges ?ls)) \<le> blockIndex repo")
      case True
      with r show ?thesis by (simp add: toggleDeb822_def Let_def)
    next
      case False
      with r obtain ls where
        "commitLines io (repoFile repo) ls errMsg w
           = (False, ''Block index out of range (file changed externally?)'', w')"
        by (simp add: toggleDeb822_def Let_def)
      from commit[OF this] show ?thesis by simp
    qed
  qed
  have p5: "\<forall>w'. deleteRepoClean io repo errMsg w = (False, ''Line not found in file'', w') \<longrightarrow> w' = w"
  proof (intro allI impI)
    fix w'
    assume r: "deleteRepoClean io repo errMsg w = (False, ''Line not found in file'', w')"
    show "w' = w"
    proof (cases "isDeb822 repo")
      case False
      obtain found ls where d: "deleteLoop (display repo) False ?ls = (found, ls)"
        by (cases "deleteLoop (display repo) False ?ls")
      show ?thesis
      proof (cases found)
        case True
        with r d False
        have "commitLines io (repoFile repo) ls errMsg w = (False, ''Line not found in file'', w')"
          by (simp add: deleteRepoClean_def Let_def)
        from commit[OF this] show ?thesis by simp
      next
        case False
        with r d \<open>\<not> isDeb822 repo\<close> show ?thesis by (simp add: deleteRepoClean_def Let_def)
      qed
    next
      case True
      show ?thesis
      proof (cases "blockIndex repo < 0 \<or> int (length (blockRanges ?ls)) \<le> blockIndex repo")
        case oor: True
        with r True show ?thesis by (simp add: deleteRepoClean_def Let_def)
      next
        case False
        with r True obtain ls where
          "commitLines io (repoFile repo) ls errMsg w = (False, ''Line not found in file'', w')"
          by (simp add: deleteRepoClean_def Let_def)
        from commit[OF this] show ?thesis by simp
      qed
    qed
  qed
  have p6: "\<forall>w'. deleteRepoClean io repo errMsg w = (False, ''Block index out of range'', w') \<longrightarrow> w' = w"
  proof (intro allI impI)
    fix w'
    assume r: "deleteRepoClean io repo errMsg w = (False, ''Block index out of range'', w')"
    show "w' = w"
    proof (cases "isDeb822 repo")
      case False
      obtain found ls where d: "deleteLoop (display repo) False ?ls = (found, ls)"
        by (cases "deleteLoop (display repo) False ?ls")
      show ?thesis
      proof (cases found)
        case True
        with r d False
        have "commitLines io (repoFile repo) ls errMsg w = (False, ''Block index out of range'', w')"
          by (simp add: deleteRepoClean_def Let_def)
        from commit[OF this] show ?thesis by simp
      next
        case False
        with r d \<open>\<not> isDeb822 repo\<close> show ?thesis by (simp add: deleteRepoClean_def Let_def)
      qed
    next
      case True
      show ?thesis
      proof (cases "blockIndex repo < 0 \<or> int (length (blockRanges ?ls)) \<le> blockIndex repo")
        case oor: True
        with r True show ?thesis by (simp add: deleteRepoClean_def Let_def)
      next
        case False
        with r True obtain ls where
          "commitLines io (repoFile repo) ls errMsg w = (False, ''Block index out of range'', w')"
          by (simp add: deleteRepoClean_def Let_def)
        from commit[OF this] show ?thesis by simp
      qed
    qed
  qed
  from p1 p2 p3 p4 p5 p6 show ?thesis by (intro conjI)
qed

theorem notFound_returns_before_any_effect_witness:
  "toggleList \<lparr> backupIO = CopySucceeds, timestamp = ''20240101_120000'', writeIO = WriteSucceeds \<rparr>
      \<lparr> repoFile = ''/l'', display = ''deb x y'', enabled = True, isDeb822 = False,
        blockIndex = - 1, uri = ''x'', suite = ''y'', components = [], types = ''deb'' \<rparr> []
      \<lparr> files = [''/l'' \<mapsto> ''deb u s'' @ [CHR 0x0A]], undoStack = [], backupDir = ''/b'' \<rparr>
    = Returns (False, ''Line not found in file (changed externally?)'',
        \<lparr> files = [''/l'' \<mapsto> ''deb u s'' @ [CHR 0x0A]], undoStack = [], backupDir = ''/b'' \<rparr>)
   \<and> deleteRepoClean \<lparr> backupIO = CopySucceeds, timestamp = ''20240101_120000'', writeIO = WriteSucceeds \<rparr>
      \<lparr> repoFile = ''/l'', display = ''deb x y'', enabled = True, isDeb822 = False,
        blockIndex = - 1, uri = ''x'', suite = ''y'', components = [], types = ''deb'' \<rparr> []
      \<lparr> files = [''/l'' \<mapsto> ''deb u s'' @ [CHR 0x0A]], undoStack = [], backupDir = ''/b'' \<rparr>
    = (False, ''Line not found in file'',
        \<lparr> files = [''/l'' \<mapsto> ''deb u s'' @ [CHR 0x0A]], undoStack = [], backupDir = ''/b'' \<rparr>)
   \<and> toggleDeb822 \<lparr> backupIO = CopySucceeds, timestamp = ''20240101_120000'', writeIO = WriteSucceeds \<rparr>
      \<lparr> repoFile = ''/l'', display = ''deb x y'', enabled = True, isDeb822 = True,
        blockIndex = 1, uri = ''x'', suite = ''y'', components = [], types = ''deb'' \<rparr> []
      \<lparr> files = [''/l'' \<mapsto> ''deb u s'' @ [CHR 0x0A]], undoStack = [], backupDir = ''/b'' \<rparr>
    = (False, ''Block index out of range (file changed externally?)'',
        \<lparr> files = [''/l'' \<mapsto> ''deb u s'' @ [CHR 0x0A]], undoStack = [], backupDir = ''/b'' \<rparr>)
   \<and> deleteRepoClean \<lparr> backupIO = CopySucceeds, timestamp = ''20240101_120000'', writeIO = WriteSucceeds \<rparr>
      \<lparr> repoFile = ''/l'', display = ''deb x y'', enabled = True, isDeb822 = True,
        blockIndex = 1, uri = ''x'', suite = ''y'', components = [], types = ''deb'' \<rparr> []
      \<lparr> files = [''/l'' \<mapsto> ''deb u s'' @ [CHR 0x0A]], undoStack = [], backupDir = ''/b'' \<rparr>
    = (False, ''Block index out of range'',
        \<lparr> files = [''/l'' \<mapsto> ''deb u s'' @ [CHR 0x0A]], undoStack = [], backupDir = ''/b'' \<rparr>)"
proof -
  let ?io = "\<lparr> backupIO = CopySucceeds, timestamp = ''20240101_120000'', writeIO = WriteSucceeds \<rparr>"
  let ?r = "\<lparr> repoFile = ''/l'', display = ''deb x y'', enabled = True, isDeb822 = False,
        blockIndex = - 1, uri = ''x'', suite = ''y'', components = [], types = ''deb'' \<rparr>"
  let ?d = "\<lparr> repoFile = ''/l'', display = ''deb x y'', enabled = True, isDeb822 = True,
        blockIndex = 1, uri = ''x'', suite = ''y'', components = [], types = ''deb'' \<rparr>"
  let ?w = "\<lparr> files = [''/l'' \<mapsto> ''deb u s'' @ [CHR 0x0A]], undoStack = [], backupDir = ''/b'' \<rparr>"
  have absent: "display ?r \<notin> set (readAllLines (files ?w) (repoFile ?r))"
    by code_simp
  have notDeb: "\<not> isDeb822 ?r" by simp
  have range: "blockIndex ?d < 0
     \<or> int (length (blockRanges (readAllLines (files ?w) (repoFile ?d)))) \<le> blockIndex ?d"
    by code_simp
  have isDeb: "isDeb822 ?d" by simp
  from notFound_returns_before_any_effect[of ?r ?w ?io "[]"] absent notDeb
  have a: "toggleList ?io ?r [] ?w
             = Returns (False, ''Line not found in file (changed externally?)'', ?w)"
    and b: "deleteRepoClean ?io ?r [] ?w = (False, ''Line not found in file'', ?w)"
    by blast+
  from notFound_returns_before_any_effect[of ?d ?w ?io "[]"] range isDeb
  have c: "toggleDeb822 ?io ?d [] ?w
             = (False, ''Block index out of range (file changed externally?)'', ?w)"
    and d: "deleteRepoClean ?io ?d [] ?w = (False, ''Block index out of range'', ?w)"
    by blast+
  from a b c d show ?thesis by (intro conjI)
qed

section \<open>Import and add\<close>

lemma dupLoop_short: "length t < 4 \<Longrightarrow> existing \<noteq> [] \<Longrightarrow> dupLoop t existing = None"
  by (cases existing) simp_all

lemma importLoop_throws:
  "existing \<noteq> [] \<Longrightarrow> \<exists>line \<in> set ls. trimStr line = ''deb'' \<Longrightarrow> importLoop existing ls = None"
proof (induction ls)
  case Nil
  then show ?case by simp
next
  case (Cons a ls)
  show ?case
  proof (cases "trimStr a = ''deb''")
    case True
    with Cons.prems(1) show ?thesis
      by (simp add: dupLoop_short charAt_def startsWith_def)
  next
    case False
    with Cons.prems have "\<exists>line \<in> set ls. trimStr line = ''deb''" by auto
    from Cons.IH[OF Cons.prems(1) this] show ?thesis
      by (simp add: Let_def split: option.splits)
  qed
qed

lemma importRepos_throws:
  assumes "files w path = Some content" "aio \<noteq> AppendOpenFails" "g_repos \<noteq> []"
    and "\<exists>line \<in> set (getlines content). trimStr line = ''deb''"
  shows "importRepos aio path g_repos errMsg w = Uncaught ''std::out_of_range''"
proof -
  from assms(3) have "map (\<lambda>r. trimStr (display r)) g_repos \<noteq> []" by simp
  from importLoop_throws[OF this assms(4)] assms(1,2) show ?thesis
    by (simp add: importRepos_def)
qed

text \<open>
  C5. The claim that no operation ends the process fails on \<open>importRepos\<close>: with at
  least one entry loaded, a line of the import file whose trimmed text is exactly
  \<open>deb\<close> reaches \<open>t.substr(4)\<close> on a string of three bytes, which throws
  \<open>std::out_of_range\<close>; nothing catches it. The input below is a list with one loaded
  entry and an import file of the single line \<open>deb\<close>.
\<close>

theorem importRepos_bare_deb_throws:
  "importRepos AppendSucceeds ''/tmp/import.txt''
     [\<lparr> repoFile = ''/etc/apt/sources.list'', display = ''deb http://a b c'', enabled = True,
        isDeb822 = False, blockIndex = - 1, uri = ''http://a'', suite = ''b'',
        components = ''c'', types = ''deb'' \<rparr>] []
     \<lparr> files = [''/etc/apt/sources.list'' \<mapsto> ''deb http://a b c'' @ [CHR 0x0A],
                 ''/tmp/import.txt'' \<mapsto> ''deb'' @ [CHR 0x0A]],
       undoStack = [], backupDir = ''/var/backups/relix'' \<rparr>
   = Uncaught ''std::out_of_range''"
proof (rule importRepos_throws)
  show "\<exists>line \<in> set (getlines (''deb'' @ [CHR 0x0A])). trimStr line = ''deb''"
    by code_simp
qed simp_all

text \<open>
  C4. \<open>atomicWriteLines\<close> is not the sole mutator: the add handler and \<open>importRepos\<close>
  append to the managed file in place. When the stream goes bad after four bytes, the
  file holds its old content followed by the first four bytes of the new line: neither
  the old content nor the complete new one, and no temporary file was involved. The
  import call returns, and reports success.
\<close>

theorem add_and_import_append_in_place:
  "files (snd (addHandler False CopySucceeds ''20240101_120000'' (AppendShort 4)
                 ''deb http://x y z'' []
                 \<lparr> files = [''/etc/apt/sources.list'' \<mapsto> ''deb http://a b c'' @ [CHR 0x0A]],
                   undoStack = [], backupDir = ''/var/backups/relix'' \<rparr>))
      ''/etc/apt/sources.list''
     = Some (''deb http://a b c'' @ [CHR 0x0A] @ ''deb '')
   \<and> files (outcomeWorld
             \<lparr> files = [''/etc/apt/sources.list'' \<mapsto> ''deb http://a b c'' @ [CHR 0x0A],
                         ''/tmp/import.txt'' \<mapsto> ''deb http://x y z'' @ [CHR 0x0A]],
               undoStack = [], backupDir = ''/var/backups/relix'' \<rparr>
             (importRepos (AppendShort 4) ''/tmp/import.txt'' [] []
                \<lparr> files = [''/etc/apt/sources.list'' \<mapsto> ''deb http://a b c'' @ [CHR 0x0A],
                            ''/tmp/import.txt'' \<mapsto> ''deb http://x y z'' @ [CHR 0x0A]],
                  undoStack = [], backupDir = ''/var/backups/relix'' \<rparr>))
      ''/etc/apt/sources.list''
     = Some (''deb http://a b c'' @ [CHR 0x0A] @ ''deb '')
   \<and> outcomeOk
        (importRepos (AppendShort 4) ''/tmp/import.txt'' [] []
           \<lparr> files = [''/etc/apt/sources.list'' \<mapsto> ''deb http://a b c'' @ [CHR 0x0A],
                       ''/tmp/import.txt'' \<mapsto> ''deb http://x y z'' @ [CHR 0x0A]],
             undoStack = [], backupDir = ''/var/backups/relix'' \<rparr>)"
  by code_simp

section \<open>The metadata probe\<close>

lemma metaLineStep_keeps: "error (metaLineStep m line) = error m"
  by (simp add: metaLineStep_def)

lemma foldl_metaLineStep_keeps: "error (foldl metaLineStep m ls) = error m"
  by (induction ls arbitrary: m) (simp_all add: metaLineStep_keeps)

lemma metaFromCache_error:
  "(error (metaFromCache env repo) \<noteq> [])
     = (uri repo \<noteq> [] \<and> suite repo \<noteq> [] \<and> cacheFiles env (cacheRelPath repo) = None)"
  by (simp add: metaFromCache_def Let_def emptyMeta_def foldl_metaLineStep_keeps
           split: option.splits)

text \<open>
  C8, as amended. In every result a probe produces, the error field is populated exactly
  when the entry has a non-empty URI and a non-empty suite and its cache file cannot be
  opened (an entry lacking either leaves \<open>metaFromCache\<close> before any lookup, with no
  error); the reachable field is the result of \<open>checkReachable\<close> on the entry's URI,
  whatever the cache lookup gave.
\<close>

theorem probe_error_and_reachable:
  "fetchMetaAsync env running repo = Some m \<longrightarrow>
     ((error m \<noteq> [])
        = (uri repo \<noteq> [] \<and> suite repo \<noteq> [] \<and> cacheFiles env (cacheRelPath repo) = None))
     \<and> reachable m = checkReachable env (uri repo) 3000"
  using metaFromCache_error[of env repo]
  by (auto simp: fetchMetaAsync_def split: if_splits)

theorem probe_error_and_reachable_witness:
  "fetchMetaAsync \<lparr> cacheFiles = Map.empty, cacheMtime = Map.empty,
                    netConnect = (\<lambda>h p t. h = ''a.org'' \<and> p = ''443'') \<rparr> False
     \<lparr> repoFile = ''/l'', display = ''deb https://a.org/x focal main'', enabled = True,
       isDeb822 = False, blockIndex = - 1, uri = ''https://a.org/x'', suite = ''focal'',
       components = ''main'', types = ''deb'' \<rparr>
     = Some \<lparr> origin = [], codename = [], metaSuite = [], version = [], date = [],
              description = [], lastUpdate = [], reachable = True,
              error = ''Cache not found (run apt update)'' \<rparr>
   \<and> checkReachable \<lparr> cacheFiles = Map.empty, cacheMtime = Map.empty,
                    netConnect = (\<lambda>h p t. h = ''a.org'' \<and> p = ''443'') \<rparr>
        ''https://a.org/x'' 3000"
proof -
  let ?env = "\<lparr> cacheFiles = Map.empty, cacheMtime = Map.empty,
                    netConnect = (\<lambda>h p t. h = ''a.org'' \<and> p = ''443'') \<rparr>"
  let ?r = "\<lparr> repoFile = ''/l'', display = ''deb https://a.org/x focal main'', enabled = True,
       isDeb822 = False, blockIndex = - 1, uri = ''https://a.org/x'', suite = ''focal'',
       components = ''main'', types = ''deb'' \<rparr>"
  let ?m = "\<lparr> origin = [], codename = [], metaSuite = [], version = [], date = [],
              description = [], lastUpdate = [], reachable = True,
              error = ''Cache not found (run apt update)'' \<rparr>"
  have run: "fetchMetaAsync ?env False ?r = Some ?m" by code_simp
  from probe_error_and_reachable[of ?env False ?r ?m] run
  have "reachable ?m = checkReachable ?env (uri ?r) 3000" by blast
  with run show ?thesis by simp
qed

text \<open>
  The claim as stated fails on an entry without a suite, such as the one parsed from the
  line \<open>deb http://a\<close>: its cache file cannot be opened, yet the error field is empty.
\<close>

theorem probe_error_counterexample:
  "cacheFiles \<lparr> cacheFiles = Map.empty, cacheMtime = Map.empty,
                 netConnect = (\<lambda>h p t. False) \<rparr>
      (cacheRelPath \<lparr> repoFile = ''/l'', display = ''deb http://a'', enabled = True,
          isDeb822 = False, blockIndex = - 1, uri = ''http://a'', suite = [],
          components = [], types = ''deb'' \<rparr>) = None
   \<and> fetchMetaAsync \<lparr> cacheFiles = Map.empty, cacheMtime = Map.empty,
                       netConnect = (\<lambda>h p t. False) \<rparr> False
        \<lparr> repoFile = ''/l'', display = ''deb http://a'', enabled = True,
          isDeb822 = False, blockIndex = - 1, uri = ''http://a'', suite = [],
          components = [], types = ''deb'' \<rparr>
      = Some \<lparr> origin = [], codename = [], metaSuite = [], version = [], date = [],
               description = [], lastUpdate = [], reachable = False, error = [] \<rparr>"
  by (simp add: fetchMetaAsync_def metaFromCache_def emptyMeta_def checkReachable_def)

section \<open>Toggle of a one-line entry\<close>

lemma firstMatch_props:
  "d \<in> set ls \<Longrightarrow>
     firstMatch d ls < length ls \<and> ls ! firstMatch d ls = d
     \<and> (\<forall>j<firstMatch d ls. ls ! j \<noteq> d)"
proof (induction ls)
  case Nil
  then show ?case by simp
next
  case (Cons a ls)
  show ?case
  proof (cases "a = d")
    case True
    then show ?thesis by (simp add: firstMatch_def)
  next
    case False
    with Cons have ih: "firstMatch d ls < length ls \<and> ls ! firstMatch d ls = d
       \<and> (\<forall>j<firstMatch d ls. ls ! j \<noteq> d)" by simp
    from False have fm: "firstMatch d (a # ls) = Suc (firstMatch d ls)"
      by (simp add: firstMatch_def)
    from ih False show ?thesis unfolding fm by (auto simp: nth_Cons split: nat.splits)
  qed
qed

lemma toggledLine_hash:
  "toggledLine False (CHR ''#'' # rest) = Some (trimStr (stripCommentMarker (CHR ''#'' # rest)))"
  by (cases rest) (simp_all add: toggledLine_def charAt_def)

lemma toggleList_found:
  assumes "display repo \<in> set (readAllLines (files w) (repoFile repo))"
    and "toggledLine (enabled repo) (display repo) = Some l'"
  shows "toggleList io repo errMsg w
           = Returns (commitLines io (repoFile repo)
                        ((readAllLines (files w) (repoFile repo))
                           [firstMatch (display repo) (readAllLines (files w) (repoFile repo)) := l'])
                        errMsg w)"
  using toggleLoop_present[OF assms] by (simp add: toggleList_def firstMatch_def)

lemma toggleList_found_written:
  assumes "display repo \<in> set (readAllLines (files w) (repoFile repo))"
    and "toggledLine (enabled repo) (display repo) = Some l'"
    and "writeIO io = WriteSucceeds"
  shows "outcomeOk (toggleList io repo errMsg w)"
    and "files (outcomeWorld w (toggleList io repo errMsg w)) (repoFile repo)
           = Some (writeLines ((readAllLines (files w) (repoFile repo))
                      [firstMatch (display repo) (readAllLines (files w) (repoFile repo)) := l']))"
    and "undoStack (outcomeWorld w (toggleList io repo errMsg w))
           = undoStack (pushUndo (repoFile repo) w)"
proof -
  let ?ls = "(readAllLines (files w) (repoFile repo))
                [firstMatch (display repo) (readAllLines (files w) (repoFile repo)) := l']"
  obtain msg w' where c: "commitLines io (repoFile repo) ?ls errMsg w
                            = (writeIO io = WriteSucceeds, msg, w')"
    and u: "undoStack w' = undoStack (pushUndo (repoFile repo) w)"
    and f: "files w' (repoFile repo)
             = (if writeIO io = WriteSucceeds then Some (writeLines ?ls)
                else files w (repoFile repo))"
    by (rule commitLines_result)
  from toggleList_found[OF assms(1,2), of io errMsg] c assms(3)
  have t: "toggleList io repo errMsg w = Returns (True, msg, w')" by simp
  show "outcomeOk (toggleList io repo errMsg w)" by (simp add: t)
  show "files (outcomeWorld w (toggleList io repo errMsg w)) (repoFile repo) = Some (writeLines ?ls)"
    using f assms(3) by (simp add: t)
  show "undoStack (outcomeWorld w (toggleList io repo errMsg w))
           = undoStack (pushUndo (repoFile repo) w)"
    using u by (simp add: t)
qed

text \<open>
  C6, as amended. \<open>toggleList\<close> looks for the first line of the freshly read file equal
  to the entry's display text and fails with NotFound, touching nothing, when there is
  none. When the write succeeds, the file then holds the lines read with that one line
  replaced: for an active entry by the line prefixed with \<open>"# "\<close>; for a disabled
  entry whose line begins with \<open>#\<close> by the line without that \<open>#\<close> and without one
  following space, if present, and with the surrounding whitespace of what remains
  trimmed off as well.
\<close>

theorem toggleList_rewrites_first_match:
  "(display repo \<notin> set (readAllLines (files w) (repoFile repo)) \<longrightarrow>
      toggleList io repo errMsg w
        = Returns (False, ''Line not found in file (changed externally?)'', w))
   \<and> (display repo \<in> set (readAllLines (files w) (repoFile repo)) \<longrightarrow>
        firstMatch (display repo) (readAllLines (files w) (repoFile repo))
          < length (readAllLines (files w) (repoFile repo))
        \<and> readAllLines (files w) (repoFile repo)
            ! firstMatch (display repo) (readAllLines (files w) (repoFile repo)) = display repo
        \<and> (\<forall>j < firstMatch (display repo) (readAllLines (files w) (repoFile repo)).
              readAllLines (files w) (repoFile repo) ! j \<noteq> display repo))
   \<and> (display repo \<in> set (readAllLines (files w) (repoFile repo))
        \<and> writeIO io = WriteSucceeds \<and> enabled repo \<longrightarrow>
        outcomeOk (toggleList io repo errMsg w)
        \<and> files (outcomeWorld w (toggleList io repo errMsg w)) (repoFile repo)
            = Some (writeLines ((readAllLines (files w) (repoFile repo))
                      [firstMatch (display repo) (readAllLines (files w) (repoFile repo))
                         := ''# '' @ display repo])))
   \<and> (display repo \<in> set (readAllLines (files w) (repoFile repo))
        \<and> writeIO io = WriteSucceeds \<and> \<not> enabled repo
        \<and> (\<exists>rest. display repo = CHR ''#'' # rest) \<longrightarrow>
        outcomeOk (toggleList io repo errMsg w)
        \<and> files (outcomeWorld w (toggleList io repo errMsg w)) (repoFile repo)
            = Some (writeLines ((readAllLines (files w) (repoFile repo))
                      [firstMatch (display repo) (readAllLines (files w) (repoFile repo))
                         := trimStr (stripCommentMarker (display repo))])))"
proof (intro conjI impI)
  let ?ls = "readAllLines (files w) (repoFile repo)"
  {
    assume "display repo \<notin> set ?ls"
    then show "toggleList io repo errMsg w
        = Returns (False, ''Line not found in file (changed externally?)'', w)"
      by (simp add: toggleList_def toggleLoop_absent)
  }
  {
    assume m: "display repo \<in> set ?ls"
    from firstMatch_props[OF m]
    show "firstMatch (display repo) ?ls < length ?ls"
      and "?ls ! firstMatch (display repo) ?ls = display repo"
      and "\<forall>j < firstMatch (display repo) ?ls. ?ls ! j \<noteq> display repo"
      by blast+
  }
  {
    assume a: "display repo \<in> set ?ls \<and> writeIO io = WriteSucceeds \<and> enabled repo"
    then have t: "toggledLine (enabled repo) (display repo) = Some (''# '' @ display repo)"
      by (simp add: toggledLine_def)
    from a toggleList_found_written[OF _ t, of w io errMsg]
    show "outcomeOk (toggleList io repo errMsg w)"
      and "files (outcomeWorld w (toggleList io repo errMsg w)) (repoFile repo)
            = Some (writeLines (?ls[firstMatch (display repo) ?ls := ''# '' @ display repo]))"
      by blast+
  }
  {
    assume a: "display repo \<in> set ?ls \<and> writeIO io = WriteSucceeds \<and> \<not> enabled repo
        \<and> (\<exists>rest. display repo = CHR ''#'' # rest)"
    then obtain rest where r: "display repo = CHR ''#'' # rest" by blast
    from a have t: "toggledLine (enabled repo) (display repo)
                      = Some (trimStr (stripCommentMarker (display repo)))"
      unfolding r using toggledLine_hash[of rest] by simp
    from a toggleList_found_written[OF _ t, of w io errMsg]
    show "outcomeOk (toggleList io repo errMsg w)"
      and "files (outcomeWorld w (toggleList io repo errMsg w)) (repoFile repo)
            = Some (writeLines (?ls[firstMatch (display repo) ?ls
                         := trimStr (stripCommentMarker (display repo))]))"
      by blast+
  }
qed

theorem toggleList_rewrites_first_match_witness:
  "toggleList \<lparr> backupIO = CopySucceeds, timestamp = ''20240101_120000'', writeIO = WriteSucceeds \<rparr>
      \<lparr> repoFile = ''/l'', display = ''deb q r'', enabled = True, isDeb822 = False,
        blockIndex = - 1, uri = ''q'', suite = ''r'', components = [], types = ''deb'' \<rparr> []
      \<lparr> files = [''/l'' \<mapsto> ''deb u s'' @ [CHR 0x0A] @ ''#  deb x y'' @ [CHR 0x0A]],
        undoStack = [], backupDir = ''/b'' \<rparr>
     = Returns (False, ''Line not found in file (changed externally?)'',
         \<lparr> files = [''/l'' \<mapsto> ''deb u s'' @ [CHR 0x0A] @ ''#  deb x y'' @ [CHR 0x0A]],
           undoStack = [], backupDir = ''/b'' \<rparr>)
   \<and> files (outcomeWorld
        \<lparr> files = [''/l'' \<mapsto> ''deb u s'' @ [CHR 0x0A] @ ''#  deb x y'' @ [CHR 0x0A]],
          undoStack = [], backupDir = ''/b'' \<rparr>
        (toggleList \<lparr> backupIO = CopySucceeds, timestamp = ''20240101_120000'', writeIO = WriteSucceeds \<rparr>
          \<lparr> repoFile = ''/l'', display = ''deb u s'', enabled = True, isDeb822 = False,
            blockIndex = - 1, uri = ''u'', suite = ''s'', components = [], types = ''deb'' \<rparr> []
          \<lparr> files = [''/l'' \<mapsto> ''deb u s'' @ [CHR 0x0A] @ ''#  deb x y'' @ [CHR 0x0A]],
            undoStack = [], backupDir = ''/b'' \<rparr>)) ''/l''
     = Some (''# deb u s'' @ [CHR 0x0A] @ ''#  deb x y'' @ [CHR 0x0A])
   \<and> files (outcomeWorld
        \<lparr> files = [''/l'' \<mapsto> ''deb u s'' @ [CHR 0x0A] @ ''#  deb x y'' @ [CHR 0x0A]],
          undoStack = [], backupDir = ''/b'' \<rparr>
        (toggleList \<lparr> backupIO = CopySucceeds, timestamp = ''20240101_120000'', writeIO = WriteSucceeds \<rparr>
          \<lparr> repoFile = ''/l'', display = ''#  deb x y'', enabled = False, isDeb822 = False,
            blockIndex = - 1, uri = ''x'', suite = ''y'', components = [], types = ''deb'' \<rparr> []
          \<lparr> files = [''/l'' \<mapsto> ''deb u s'' @ [CHR 0x0A] @ ''#  deb x y'' @ [CHR 0x0A]],
            undoStack = [], backupDir = ''/b'' \<rparr>)) ''/l''
     = Some (''deb u s'' @ [CHR 0x0A] @ ''deb x y'' @ [CHR 0x0A])"
proof -
  let ?io = "\<lparr> backupIO = CopySucceeds, timestamp = ''20240101_120000'', writeIO = WriteSucceeds \<rparr>"
  let ?w = "\<lparr> files = [''/l'' \<mapsto> ''deb u s'' @ [CHR 0x0A] @ ''#  deb x y'' @ [CHR 0x0A]],
             undoStack = [], backupDir = ''/b'' \<rparr>"
  let ?a = "\<lparr> repoFile = ''/l'', display = ''deb q r'', enabled = True, isDeb822 = False,
        blockIndex = - 1, uri = ''q'', suite = ''r'', components = [], types = ''deb'' \<rparr>"
  let ?e = "\<lparr> repoFile = ''/l'', display = ''deb u s'', enabled = True, isDeb822 = False,
            blockIndex = - 1, uri = ''u'', suite = ''s'', components = [], types = ''deb'' \<rparr>"
  let ?d = "\<lparr> repoFile = ''/l'', display = ''#  deb x y'', enabled = False, isDeb822 = False,
            blockIndex = - 1, uri = ''x'', suite = ''y'', components = [], types = ''deb'' \<rparr>"
  have ha: "display ?a \<notin> set (readAllLines (files ?w) (repoFile ?a))" by code_simp
  have he: "display ?e \<in> set (readAllLines (files ?w) (repoFile ?e))
              \<and> writeIO ?io = WriteSucceeds \<and> enabled ?e"
    by code_simp
  have hd: "display ?d \<in> set (readAllLines (files ?w) (repoFile ?d))
              \<and> writeIO ?io = WriteSucceeds \<and> \<not> enabled ?d
              \<and> (\<exists>rest. display ?d = CHR ''#'' # rest)"
    by (simp add: readAllLines_def getlines_def)
  have ve: "writeLines ((readAllLines (files ?w) (repoFile ?e))
                [firstMatch (display ?e) (readAllLines (files ?w) (repoFile ?e))
                   := ''# '' @ display ?e])
            = ''# deb u s'' @ [CHR 0x0A] @ ''#  deb x y'' @ [CHR 0x0A]"
    by code_simp
  have vd: "writeLines ((readAllLines (files ?w) (repoFile ?d))
                [firstMatch (display ?d) (readAllLines (files ?w) (repoFile ?d))
                   := trimStr (stripCommentMarker (display ?d))])
            = ''deb u s'' @ [CHR 0x0A] @ ''deb x y'' @ [CHR 0x0A]"
    by code_simp
  from toggleList_rewrites_first_match[of ?a ?w ?io "[]"] ha
  have a: "toggleList ?io ?a [] ?w
             = Returns (False, ''Line not found in file (changed externally?)'', ?w)"
    by blast
  from toggleList_rewrites_first_match[of ?e ?w ?io "[]"] he
  have e: "files (outcomeWorld ?w (toggleList ?io ?e [] ?w)) (repoFile ?e)
             = Some (writeLines ((readAllLines (files ?w) (repoFile ?e))
                [firstMatch (display ?e) (readAllLines (files ?w) (repoFile ?e))
                   := ''# '' @ display ?e]))"
    by blast
  from toggleList_rewrites_first_match[of ?d ?w ?io "[]"] hd
  have d: "files (outcomeWorld ?w (toggleList ?io ?d [] ?w)) (repoFile ?d)
             = Some (writeLines ((readAllLines (files ?w) (repoFile ?d))
                [firstMatch (display ?d) (readAllLines (files ?w) (repoFile ?d))
                   := trimStr (stripCommentMarker (display ?d))]))"
    by blast
  from e have e': "files (outcomeWorld ?w (toggleList ?io ?e [] ?w)) ''/l''
             = Some (''# deb u s'' @ [CHR 0x0A] @ ''#  deb x y'' @ [CHR 0x0A])"
    unfolding ve by simp
  from d have d': "files (outcomeWorld ?w (toggleList ?io ?d [] ?w)) ''/l''
             = Some (''deb u s'' @ [CHR 0x0A] @ ''deb x y'' @ [CHR 0x0A])"
    unfolding vd by simp
  from a e' d' show ?thesis by (intro conjI)
qed

text \<open>
  The claim as stated fails on a disabled line with two spaces after \<open>#\<close>: stripping
  one \<open>#\<close> and one space and leaving the rest would keep the second space; the code
  trims it away.
\<close>

theorem toggleList_strip_counterexample:
  "stripCommentMarker ''#  deb x y'' = '' deb x y''
   \<and> files (outcomeWorld
        \<lparr> files = [''/l'' \<mapsto> ''#  deb x y'' @ [CHR 0x0A]], undoStack = [], backupDir = ''/b'' \<rparr>
        (toggleList \<lparr> backupIO = CopySucceeds, timestamp = ''20240101_120000'', writeIO = WriteSucceeds \<rparr>
          \<lparr> repoFile = ''/l'', display = ''#  deb x y'', enabled = False, isDeb822 = False,
            blockIndex = - 1, uri = ''x'', suite = ''y'', components = [], types = ''deb'' \<rparr> []
          \<lparr> files = [''/l'' \<mapsto> ''#  deb x y'' @ [CHR 0x0A]], undoStack = [],
            backupDir = ''/b'' \<rparr>)) ''/l''
     = Some (''deb x y'' @ [CHR 0x0A])"
  by code_simp

section \<open>Lines and bytes\<close>

lemma writeLines_getlineLoop:
  "s \<noteq> [] \<Longrightarrow> last s = CHR 0x0A \<Longrightarrow> writeLines (getlineLoop cur s) = cur @ s"
proof (induction s arbitrary: cur)
  case Nil
  then show ?case by simp
next
  case (Cons c s)
  show ?case
  proof (cases "s = []")
    case True
    with Cons.prems show ?thesis by (simp add: writeLines_def)
  next
    case False
    with Cons.prems have l: "last s = CHR 0x0A" by simp
    show ?thesis
    proof (cases "c = CHR 0x0A")
      case True
      with Cons.IH[OF False l, of "[]"] show ?thesis by (simp add: writeLines_def)
    next
      case nl: False
      with Cons.IH[OF False l, of "cur @ [c]"] show ?thesis by simp
    qed
  qed
qed

lemma writeLines_getlines: "newlineTerminated c \<Longrightarrow> writeLines (getlines c) = c"
  using writeLines_getlineLoop[of c "[]"]
  by (cases "c = []") (auto simp: newlineTerminated_def getlines_def writeLines_def)

section \<open>Undo after one mutation\<close>

lemma outcomeWorld_Returns: "outcomeWorld w0 (Returns r) = snd (snd r)"
  by (cases r) simp

lemma applyUndo_after_pushUndo:
  assumes "undoStack w1 = undoStack (pushUndo f w)"
  shows "fst (applyUndo WriteSucceeds e w1)"
    and "files (snd (snd (applyUndo WriteSucceeds e w1))) f
           = Some (writeLines (readAllLines (files w) f))"
proof -
  from assms pushUndo_last[of f w] have ne: "undoStack w1 \<noteq> []"
    and l: "last (undoStack w1) = \<lparr> undoFile = f, undoLines = readAllLines (files w) f \<rparr>"
    by simp_all
  from applyUndo_result[OF ne, of WriteSucceeds e]
  show "fst (applyUndo WriteSucceeds e w1)" by simp
  from applyUndo_result[OF ne, of WriteSucceeds e]
    atomicWriteLines_target[of WriteSucceeds f "readAllLines (files w) f" e "files w1"]
  show "files (snd (snd (applyUndo WriteSucceeds e w1))) f
           = Some (writeLines (readAllLines (files w) f))"
    by (simp add: l)
qed

lemma toggleList_returns_commit:
  assumes "toggleList io repo errMsg w = Returns r"
    and "display repo \<in> set (readAllLines (files w) (repoFile repo))"
  shows "\<exists>ls. r = commitLines io (repoFile repo) ls errMsg w"
proof (cases "toggledLine (enabled repo) (display repo)")
  case None
  from toggleLoop_throws[OF assms(2) None] assms(1) show ?thesis
    by (simp add: toggleList_def)
next
  case (Some l')
  from toggleList_found[OF assms(2) Some, of io errMsg] assms(1) show ?thesis by auto
qed

lemma commitLines_stack:
  "commitLines io f ls errMsg w = (ok, msg, w1) \<Longrightarrow> undoStack w1 = undoStack (pushUndo f w)"
  by (rule commitLines_result[of io f ls errMsg w]) simp

lemma addHandler_stack:
  assumes "addHandler False bio ts aio newLine destInput w = (st, w1)"
    and "newLine \<noteq> []" "startsWith newLine ''deb''"
  shows "undoStack w1 = undoStack (pushUndo (if destInput = [] then mainList else destInput) w)"
proof -
  let ?dest = "if destInput = [] then mainList else destInput"
  obtain bok be w2 where b: "backupFile bio ts ?dest [] (pushUndo ?dest w) = (bok, be, w2)"
    by (rule prod_cases3)
  from backupFile_world[OF b] have "undoStack w2 = undoStack (pushUndo ?dest w)" by simp
  with assms b show ?thesis
    by (cases aio) (auto simp: addHandler_def Let_def)
qed

lemma singleMutation_stack:
  "singleMutation w f w1 \<Longrightarrow> undoStack w1 = undoStack (pushUndo f w)"
proof (induction rule: singleMutation.induct)
  case (byToggleList io repo errMsg w ok msg w1)
  from toggleList_returns_commit[OF byToggleList(1,2)] obtain ls where
    "commitLines io (repoFile repo) ls errMsg w = (ok, msg, w1)" by auto
  then show ?case by (rule commitLines_stack)
next
  case (byToggleDeb822 io repo errMsg w ok msg w1)
  then obtain ls where "commitLines io (repoFile repo) ls errMsg w = (ok, msg, w1)"
    by (simp add: toggleDeb822_def Let_def)
  then show ?case by (rule commitLines_stack)
next
  case (byDeleteLine io repo errMsg w ok msg w1)
  obtain found ls where d: "deleteLoop (display repo) False
                              (readAllLines (files w) (repoFile repo)) = (found, ls)"
    by (cases "deleteLoop (display repo) False (readAllLines (files w) (repoFile repo))")
  with deleteLoop_found[of "display repo" False "readAllLines (files w) (repoFile repo)"]
    byDeleteLine(3)
  have "found" by simp
  with byDeleteLine(1,2) d
  have "commitLines io (repoFile repo) ls errMsg w = (ok, msg, w1)"
    by (simp add: deleteRepoClean_def Let_def)
  then show ?case by (rule commitLines_stack)
next
  case (byDeleteBlock io repo errMsg w ok msg w1)
  then obtain ls where "commitLines io (repoFile repo) ls errMsg w = (ok, msg, w1)"
    by (simp add: deleteRepoClean_def Let_def)
  then show ?case by (rule commitLines_stack)
next
  case (byAdd bio ts aio newLine destInput w st w1)
  then show ?case by (rule addHandler_stack)
qed

text \<open>
  C3, as amended. After exactly one mutation (toggle, delete or add), an undo whose
  atomic write succeeds leaves the mutated file holding the lines it had before the
  mutation, each followed by a newline; that is byte-identical to the content before the
  mutation when the file existed and was empty or ended with a newline. An undo on an
  empty stack fails with \<open>Nothing to undo.\<close> and leaves the files and the stack as
  they were.
\<close>

theorem undo_after_one_mutation:
  "(undoStack w = [] \<longrightarrow> applyUndo uio e w = (False, ''Nothing to undo.'', w))
   \<and> (singleMutation w f w1 \<longrightarrow>
        fst (applyUndo WriteSucceeds e w1)
        \<and> files (snd (snd (applyUndo WriteSucceeds e w1))) f
            = Some (writeLines (readAllLines (files w) f))
        \<and> (\<forall>c. files w f = Some c \<and> newlineTerminated c \<longrightarrow>
              files (snd (snd (applyUndo WriteSucceeds e w1))) f = Some c))"
proof (intro conjI impI allI)
  assume "undoStack w = []"
  then show "applyUndo uio e w = (False, ''Nothing to undo.'', w)"
    by (simp add: applyUndo_def)
next
  assume m: "singleMutation w f w1"
  note u = applyUndo_after_pushUndo[OF singleMutation_stack[OF m], of e]
  show "fst (applyUndo WriteSucceeds e w1)" by (rule u(1))
  show "files (snd (snd (applyUndo WriteSucceeds e w1))) f
            = Some (writeLines (readAllLines (files w) f))" by (rule u(2))
  fix c assume "files w f = Some c \<and> newlineTerminated c"
  then show "files (snd (snd (applyUndo WriteSucceeds e w1))) f = Some c"
    using u(2) by (simp add: readAllLines_def writeLines_getlines)
qed

theorem undo_after_one_mutation_witness:
  "applyUndo WriteSucceeds []
      \<lparr> files = [''/l'' \<mapsto> ''deb u s'' @ [CHR 0x0A]], undoStack = [], backupDir = ''/b'' \<rparr>
     = (False, ''Nothing to undo.'',
        \<lparr> files = [''/l'' \<mapsto> ''deb u s'' @ [CHR 0x0A]], undoStack = [], backupDir = ''/b'' \<rparr>)
   \<and> files (outcomeWorld
        \<lparr> files = [''/l'' \<mapsto> ''deb u s'' @ [CHR 0x0A]], undoStack = [], backupDir = ''/b'' \<rparr>
        (toggleList \<lparr> backupIO = CopySucceeds, timestamp = ''20240101_120000'', writeIO = WriteSucceeds \<rparr>
           \<lparr> repoFile = ''/l'', display = ''deb u s'', enabled = True, isDeb822 = False,
             blockIndex = - 1, uri = ''u'', suite = ''s'', components = [], types = ''deb'' \<rparr> []
           \<lparr> files = [''/l'' \<mapsto> ''deb u s'' @ [CHR 0x0A]], undoStack = [],
             backupDir = ''/b'' \<rparr>)) ''/l''
     = Some (''# deb u s'' @ [CHR 0x0A])
   \<and> files (snd (snd (applyUndo WriteSucceeds []
        (outcomeWorld
          \<lparr> files = [''/l'' \<mapsto> ''deb u s'' @ [CHR 0x0A]], undoStack = [], backupDir = ''/b'' \<rparr>
          (toggleList \<lparr> backupIO = CopySucceeds, timestamp = ''20240101_120000'', writeIO = WriteSucceeds \<rparr>
             \<lparr> repoFile = ''/l'', display = ''deb u s'', enabled = True, isDeb822 = False,
               blockIndex = - 1, uri = ''u'', suite = ''s'', components = [], types = ''deb'' \<rparr> []
             \<lparr> files = [''/l'' \<mapsto> ''deb u s'' @ [CHR 0x0A]], undoStack = [],
               backupDir = ''/b'' \<rparr>))))) ''/l''
     = Some (''deb u s'' @ [CHR 0x0A])"
proof -
  let ?io = "\<lparr> backupIO = CopySucceeds, timestamp = ''20240101_120000'', writeIO = WriteSucceeds \<rparr>"
  let ?w = "\<lparr> files = [''/l'' \<mapsto> ''deb u s'' @ [CHR 0x0A]], undoStack = [], backupDir = ''/b'' \<rparr>"
  let ?r = "\<lparr> repoFile = ''/l'', display = ''deb u s'', enabled = True, isDeb822 = False,
             blockIndex = - 1, uri = ''u'', suite = ''s'', components = [], types = ''deb'' \<rparr>"
  have found: "display ?r \<in> set (readAllLines (files ?w) (repoFile ?r))" by code_simp
  have tl: "toggledLine (enabled ?r) (display ?r) = Some (''# deb u s'')" by code_simp
  let ?c = "commitLines ?io (repoFile ?r)
              ((readAllLines (files ?w) (repoFile ?r))
                 [firstMatch (display ?r) (readAllLines (files ?w) (repoFile ?r)) := ''# deb u s''])
              [] ?w"
  from toggleList_found[OF found tl, of ?io "[]"]
  have t0: "toggleList ?io ?r [] ?w = Returns ?c" .
  then have t: "toggleList ?io ?r [] ?w = Returns (fst ?c, fst (snd ?c), snd (snd ?c))" by simp
  from singleMutation.byToggleList[OF t found]
  have sm: "singleMutation ?w ''/l'' (snd (snd ?c))" by simp
  have ow: "outcomeWorld ?w (toggleList ?io ?r [] ?w) = snd (snd ?c)"
    unfolding t0 by (rule outcomeWorld_Returns)
  have empty: "undoStack ?w = []" by simp
  have nt: "files ?w ''/l'' = Some (''deb u s'' @ [CHR 0x0A])
            \<and> newlineTerminated (''deb u s'' @ [CHR 0x0A])"
    by (simp add: newlineTerminated_def)
  from undo_after_one_mutation[of ?w WriteSucceeds "[]" "''/l''" "snd (snd ?c)"] empty sm nt
  have a: "applyUndo WriteSucceeds [] ?w = (False, ''Nothing to undo.'', ?w)"
    and b: "files (snd (snd (applyUndo WriteSucceeds [] (snd (snd ?c))))) ''/l''
              = Some (''deb u s'' @ [CHR 0x0A])"
    by blast+
  have mid: "files (outcomeWorld ?w (toggleList ?io ?r [] ?w)) ''/l''
               = Some (''# deb u s'' @ [CHR 0x0A])"
    by code_simp
  from a b mid show ?thesis unfolding ow by (intro conjI)
qed

text \<open>
  The claim as stated fails on a file whose last line has no newline: the snapshot holds
  lines, and writing them back appends a newline to each.
\<close>

theorem undo_not_byte_identical_counterexample:
  "files \<lparr> files = [''/l'' \<mapsto> ''deb u s''], undoStack = [], backupDir = ''/b'' \<rparr> ''/l''
     = Some ''deb u s''
   \<and> files (snd (snd (applyUndo WriteSucceeds []
        (outcomeWorld
          \<lparr> files = [''/l'' \<mapsto> ''deb u s''], undoStack = [], backupDir = ''/b'' \<rparr>
          (toggleList \<lparr> backupIO = CopySucceeds, timestamp = ''20240101_120000'', writeIO = WriteSucceeds \<rparr>
             \<lparr> repoFile = ''/l'', display = ''deb u s'', enabled = True, isDeb822 = False,
               blockIndex = - 1, uri = ''u'', suite = ''s'', components = [], types = ''deb'' \<rparr> []
             \<lparr> files = [''/l'' \<mapsto> ''deb u s''], undoStack = [], backupDir = ''/b'' \<rparr>))))) ''/l''
     = Some (''deb u s'' @ [CHR 0x0A])"
  by code_simp

section \<open>Facts about trimming and line splitting\<close>

lemma trimStr_fixed:
  assumes "s \<noteq> []" "\<not> isTrimWs (hd s)" "\<not> isTrimWs (last s)"
  shows "trimStr s = s"
proof -
  from assms(1,2) have a: "dropWhile isTrimWs s = s" by (cases s) simp_all
  from assms(1,3) have "dropWhile isTrimWs (rev s) = rev s"
    by (cases "rev s") (simp_all add: hd_rev[symmetric] del: hd_rev)
  with a show ?thesis by (simp add: trimStr_def)
qed

lemma trimStr_ends:
  assumes "trimStr s \<noteq> []"
  shows "\<not> isTrimWs (hd (trimStr s))" "\<not> isTrimWs (last (trimStr s))"
proof -
  let ?t = "dropWhile isTrimWs s"
  let ?u = "dropWhile isTrimWs (rev ?t)"
  from assms have u: "?u \<noteq> []" by (simp add: trimStr_def)
  have t: "?t \<noteq> []"
  proof
    assume e: "?t = []"
    have "?u = []" unfolding e by simp
    with u show False ..
  qed
  from u have "\<not> isTrimWs (hd ?u)" by (rule hd_dropWhile)
  then show "\<not> isTrimWs (last (trimStr s))" using u by (simp add: trimStr_def last_rev)
  obtain xs where xs: "rev ?t = xs @ ?u"
    by (metis takeWhile_dropWhile_id)
  from u xs have "last ?u = last (rev ?t)" by (metis last_appendR)
  then have "hd (trimStr s) = hd ?t" using u t by (simp add: trimStr_def hd_rev last_rev)
  moreover from t have "\<not> isTrimWs (hd ?t)" by (rule hd_dropWhile)
  ultimately show "\<not> isTrimWs (hd (trimStr s))" by simp
qed

lemma trimStr_leading_space: "trimStr (CHR '' '' # s) = trimStr s"
  by (simp add: trimStr_def isTrimWs_def)

lemma set_trimStr: "set (trimStr s) \<subseteq> set s"
  by (auto simp: trimStr_def dest!: set_dropWhileD)

lemma getlineLoop_no_newline:
  "l \<in> set (getlineLoop cur s) \<Longrightarrow> CHR 0x0A \<notin> set cur \<Longrightarrow> CHR 0x0A \<notin> set l"
proof (induction s arbitrary: cur)
  case Nil
  then show ?case by (auto split: if_splits)
next
  case (Cons c s)
  show ?case
  proof (cases "c = CHR 0x0A")
    case True
    with Cons.prems have "l = cur \<or> l \<in> set (getlineLoop [] s)" by simp
    then show ?thesis
    proof
      assume "l = cur"
      with Cons.prems(2) show ?thesis by simp
    next
      assume "l \<in> set (getlineLoop [] s)"
      then show ?thesis by (rule Cons.IH) simp
    qed
  next
    case False
    with Cons.prems have "l \<in> set (getlineLoop (cur @ [c]) s)" by simp
    then show ?thesis by (rule Cons.IH) (use False Cons.prems(2) in simp)
  qed
qed

lemma getlines_no_newline: "l \<in> set (getlines c) \<Longrightarrow> CHR 0x0A \<notin> set l"
  using getlineLoop_no_newline[of l "[]" c] by (simp add: getlines_def)

lemma getlineLoop_line:
  "CHR 0x0A \<notin> set l \<Longrightarrow>
   getlineLoop cur (l @ CHR 0x0A # rest) = (cur @ l) # getlineLoop [] rest"
  by (induction l arbitrary: cur) auto

lemma getlines_writeLines:
  "\<forall>l \<in> set ls. CHR 0x0A \<notin> set l \<Longrightarrow> getlines (writeLines ls) = ls"
proof (induction ls)
  case Nil
  then show ?case by (simp add: getlines_def writeLines_def)
next
  case (Cons l ls)
  then have "getlineLoop [] (l @ CHR 0x0A # writeLines ls) = l # getlineLoop [] (writeLines ls)"
    using getlineLoop_line[of l "[]" "writeLines ls"] by simp
  with Cons show ?case by (simp add: getlines_def writeLines_def)
qed

section \<open>Entries of single lines\<close>

lemma parseListLine_fields:
  assumes "parseListLine path line = Some e"
  shows "repoFile e = path" "display e = line" "\<not> isDeb822 e"
    "enabled e = (charAt (trimStr line) 0 \<noteq> CHR ''#'')"
    "trimStr line \<noteq> []"
    "startsWith (trimStr line) ''deb''
       \<or> (charAt (trimStr line) 0 = CHR ''#''
           \<and> startsWith (trimStr (drop 1 (trimStr line))) ''deb'')"
  using assms by (auto simp: parseListLine_def Let_def split: if_splits)

lemma parseListLine_exists:
  assumes "trimStr line \<noteq> []"
    and "startsWith (trimStr line) ''deb''
       \<or> (charAt (trimStr line) 0 = CHR ''#''
           \<and> startsWith (trimStr (drop 1 (trimStr line))) ''deb'')"
  shows "\<exists>e. parseListLine path line = Some e"
  using assms by (auto simp: parseListLine_def Let_def)

lemma parseListLines_iff:
  "e \<in> set (parseListLines path ls) = (\<exists>l \<in> set ls. parseListLine path l = Some e)"
  by (induction ls) (auto simp: parseListLines_def List.map_filter_simps split: option.splits)

section \<open>Toggling a canonical line twice\<close>

lemma startsWith_deb_hd:
  assumes "startsWith s ''deb''"
  shows "s \<noteq> []" "hd s = CHR ''d''" "charAt s 0 = CHR ''d''"
proof -
  show "s \<noteq> []" using assms by (auto simp: startsWith_def)
  show "hd s = CHR ''d''" using assms by (cases s) (simp_all add: startsWith_def)
  show "charAt s 0 = CHR ''d''" using assms by (cases s) (simp_all add: startsWith_def charAt_def)
qed

lemma toggle_active_line:
  assumes p: "parseListLine f l = Some e" and en: "enabled e" and c: "trimStr l = l"
  shows "toggledLine True l = Some (''# '' @ l)"
    and "\<exists>e'. parseListLine f (''# '' @ l) = Some e'"
    and "charAt (trimStr (''# '' @ l)) 0 = CHR ''#''"
    and "toggledLine False (''# '' @ l) = Some l"
proof -
  note pf = parseListLine_fields[OF p]
  from pf(5) c have ne: "l \<noteq> []" by auto
  from trimStr_ends(2)[of l] pf(5) c have lastl: "\<not> isTrimWs (last l)" by simp
  from pf(4) en c have nh: "charAt l 0 \<noteq> CHR ''#''" by simp
  with pf(6) c have deb: "startsWith l ''deb''" by simp
  show "toggledLine True l = Some (''# '' @ l)" by (simp add: toggledLine_def)
  have fixed: "trimStr (''# '' @ l) = ''# '' @ l"
    by (rule trimStr_fixed) (use ne lastl in \<open>simp_all add: isTrimWs_def\<close>)
  then show h: "charAt (trimStr (''# '' @ l)) 0 = CHR ''#''" by (simp add: charAt_def)
  have inner: "trimStr (drop 1 (''# '' @ l)) = l"
    using c by (simp add: trimStr_leading_space)
  show "\<exists>e'. parseListLine f (''# '' @ l) = Some e'"
  proof (rule parseListLine_exists)
    show "trimStr (''# '' @ l) \<noteq> []" unfolding fixed by simp
    show "startsWith (trimStr (''# '' @ l)) ''deb'' \<or>
          charAt (trimStr (''# '' @ l)) 0 = CHR ''#'' \<and>
          startsWith (trimStr (drop 1 (trimStr (''# '' @ l)))) ''deb''"
      using h deb inner unfolding fixed by simp
  qed
  show "toggledLine False (''# '' @ l) = Some l"
    using c by (simp add: toggledLine_def charAt_def)
qed

lemma toggle_disabled_line:
  assumes p: "parseListLine f l = Some e" and en: "\<not> enabled e"
    and c: "take 2 l = ''# ''" "trimStr (drop 2 l) = drop 2 l"
  shows "toggledLine False l = Some (drop 2 l)"
    and "\<exists>e'. parseListLine f (drop 2 l) = Some e'"
    and "charAt (trimStr (drop 2 l)) 0 \<noteq> CHR ''#''"
    and "toggledLine True (drop 2 l) = Some l"
proof -
  note pf = parseListLine_fields[OF p]
  let ?r = "drop 2 l"
  from c(1) have l: "l = ''# '' @ ?r" by (metis append_take_drop_id)
  have inner: "\<And>s. trimStr (drop 1 (''# '' @ s)) = trimStr s"
    by (simp add: trimStr_leading_space)
  have rne: "?r \<noteq> []"
  proof
    assume e: "?r = []"
    with l have l2: "l = ''# ''" by simp
    have t: "trimStr l = ''#''" unfolding l2 by (simp add: trimStr_def isTrimWs_def)
    from pf(6) show False unfolding t by (simp add: startsWith_def charAt_def trimStr_def)
  qed
  from trimStr_ends(2)[of ?r] rne c(2) have lastr: "\<not> isTrimWs (last ?r)" by simp
  have "trimStr (''# '' @ ?r) = ''# '' @ ?r"
    by (rule trimStr_fixed) (use rne lastr in \<open>simp_all add: isTrimWs_def\<close>)
  with l have fixed: "trimStr l = l" by simp
  have nodeb: "\<not> startsWith l ''deb''"
    by (subst l) (simp add: startsWith_def)
  have "drop 1 l = CHR '' '' # ?r" by (subst l) simp
  with c(2) have "trimStr (drop 1 l) = ?r" by (simp add: trimStr_leading_space)
  with pf(6) nodeb fixed have deb: "startsWith ?r ''deb''" by simp
  have c1: "charAt l 1 = CHR '' ''" by (subst l) (simp add: charAt_def)
  from l have lne: "l \<noteq> []" by auto
  show "toggledLine False l = Some ?r"
    using c(2) c1 lne by (simp add: toggledLine_def)
  show "\<exists>e'. parseListLine f ?r = Some e'"
    by (rule parseListLine_exists) (use rne deb c(2) in simp_all)
  from startsWith_deb_hd(3)[OF deb] c(2)
  show "charAt (trimStr ?r) 0 \<noteq> CHR ''#''" by simp
  show "toggledLine True ?r = Some l"
    using l by (simp add: toggledLine_def)
qed

lemma toggle_canonical_line:
  assumes p: "parseListLine f l = Some e" and c: "canonicalLine (enabled e) l"
  obtains l' e' where "toggledLine (enabled e) l = Some l'"
    and "parseListLine f l' = Some e'" and "enabled e' = (\<not> enabled e)"
    and "toggledLine (enabled e') l' = Some l" and "set l' \<subseteq> insert CHR ''#'' (insert CHR '' '' (set l))"
proof (cases "enabled e")
  case True
  with c have t: "trimStr l = l" by (simp add: canonicalLine_def)
  note a = toggle_active_line[OF p True t]
  from a(2) obtain e' where e': "parseListLine f (''# '' @ l) = Some e'" by blast
  from parseListLine_fields(4)[OF e'] a(3) have "\<not> enabled e'" by simp
  with True a(1,4) e' show ?thesis
    by (intro that[of "''# '' @ l" e']) auto
next
  case False
  with c have t: "take 2 l = ''# ''" "trimStr (drop 2 l) = drop 2 l"
    by (simp_all add: canonicalLine_def)
  note a = toggle_disabled_line[OF p False t]
  from a(2) obtain e' where e': "parseListLine f (drop 2 l) = Some e'" by blast
  from parseListLine_fields(4)[OF e'] a(3) have "enabled e'" by simp
  with False a(1,4) e' show ?thesis
    by (intro that[of "drop 2 l" e']) (auto dest: in_set_dropD)
qed

lemma firstMatch_update:
  "d \<in> set ls \<Longrightarrow> d' \<notin> set (takeWhile (\<lambda>l. l \<noteq> d) ls) \<Longrightarrow>
   firstMatch d' (ls[firstMatch d ls := d']) = firstMatch d ls"
proof (induction ls)
  case Nil
  then show ?case by simp
next
  case (Cons a ls)
  show ?case
  proof (cases "a = d")
    case True
    then show ?thesis by (simp add: firstMatch_def)
  next
    case False
    with Cons.prems have "d \<in> set ls" "d' \<notin> set (takeWhile (\<lambda>l. l \<noteq> d) ls)" "a \<noteq> d'"
      by auto
    with Cons.IH False show ?thesis by (simp add: firstMatch_def)
  qed
qed

lemma toggleList_twice:
  assumes content: "files w f = Some c" and nl: "newlineTerminated c"
    and loaded: "e \<in> set (parseListFile (files w) f)"
    and canon: "canonicalLine (enabled e) (display e)"
    and toggled: "toggledLine (enabled e) (display e) = Some l'"
    and first: "l' \<notin> set (takeWhile (\<lambda>l. l \<noteq> display e) (getlines c))"
    and io: "writeIO io1 = WriteSucceeds" "writeIO io2 = WriteSucceeds"
  shows "outcomeOk (toggleList io1 e errMsg1 w)
     \<and> (\<exists>e' \<in> set (parseListFile (files (outcomeWorld w (toggleList io1 e errMsg1 w))) f).
           display e' = l')
     \<and> (\<forall>e' \<in> set (parseListFile (files (outcomeWorld w (toggleList io1 e errMsg1 w))) f).
           display e' = l' \<longrightarrow>
             enabled e' = (\<not> enabled e)
             \<and> outcomeOk (toggleList io2 e' errMsg2 (outcomeWorld w (toggleList io1 e errMsg1 w)))
             \<and> files (outcomeWorld (outcomeWorld w (toggleList io1 e errMsg1 w))
                        (toggleList io2 e' errMsg2
                           (outcomeWorld w (toggleList io1 e errMsg1 w)))) f = Some c)"
proof -
  let ?ls = "getlines c"
  let ?mid = "outcomeWorld w (toggleList io1 e errMsg1 w)"
  let ?i = "firstMatch (display e) ?ls"
  let ?toggled = "?ls[?i := l']"
  from loaded content obtain l where l: "l \<in> set ?ls" and p: "parseListLine f l = Some e"
    by (auto simp: parseListFile_def parseListLines_iff)
  note pf = parseListLine_fields[OF p]
  from pf(1,2) have ef: "repoFile e = f" and ed: "display e = l" by simp_all
  have rd: "readAllLines (files w) f = ?ls"
    using content by (simp add: readAllLines_def)
  have mem: "display e \<in> set (readAllLines (files w) (repoFile e))"
    using l ed rd ef by simp
  from canon ed have canon': "canonicalLine (enabled e) l" by simp
  obtain l2 e2 where t1: "toggledLine (enabled e) l = Some l2"
    and p2: "parseListLine f l2 = Some e2" and en2: "enabled e2 = (\<not> enabled e)"
    and t2: "toggledLine (enabled e2) l2 = Some l"
    and chars: "set l2 \<subseteq> insert CHR ''#'' (insert CHR '' '' (set l))"
    by (rule toggle_canonical_line[OF p canon'])
  from t1 toggled ed have l2: "l2 = l'" by simp
  note first_toggle = toggleList_found_written[OF mem toggled io(1), of errMsg1]
  from first_toggle(2) have w1: "files ?mid f = Some (writeLines ?toggled)"
    unfolding rd ef .
  from l ed have i: "?i < length ?ls" "?ls ! ?i = l"
    using firstMatch_props[of "display e" ?ls] by simp_all
  have nonl: "\<forall>x \<in> set ?toggled. CHR 0x0A \<notin> set x"
  proof
    fix x assume "x \<in> set ?toggled"
    then have "x = l' \<or> x \<in> set ?ls" using set_update_subset_insert by fastforce
    then show "CHR 0x0A \<notin> set x"
    proof
      assume "x = l'"
      with chars l2 getlines_no_newline[OF l] show ?thesis by auto
    next
      assume "x \<in> set ?ls"
      then show ?thesis by (rule getlines_no_newline)
    qed
  qed
  have rd1: "readAllLines (files ?mid) f = ?toggled"
    using w1 getlines_writeLines[OF nonl] by (simp add: readAllLines_def)
  from i(1) have l'mem: "l' \<in> set ?toggled" by (simp add: set_update_memI)
  have reloaded: "\<And>e'. e' \<in> set (parseListFile (files ?mid) f) \<Longrightarrow> display e' = l' \<Longrightarrow> e' = e2"
  proof -
    fix e' assume "e' \<in> set (parseListFile (files ?mid) f)" and d: "display e' = l'"
    with w1 getlines_writeLines[OF nonl] obtain x where "parseListLine f x = Some e'"
      by (auto simp: parseListFile_def parseListLines_iff)
    with parseListLine_fields(2)[OF this] d p2 l2 show "e' = e2" by simp
  qed
  have e2mem: "e2 \<in> set (parseListFile (files ?mid) f)"
    using w1 getlines_writeLines[OF nonl] l'mem p2 l2
    by (auto simp: parseListFile_def parseListLines_iff)
  from parseListLine_fields(1,2)[OF p2] l2 have e2f: "repoFile e2 = f" and e2d: "display e2 = l'"
    by simp_all
  have mem2: "display e2 \<in> set (readAllLines (files ?mid) (repoFile e2))"
    using l'mem rd1 e2f e2d by simp
  from t2 l2 e2d have tog2: "toggledLine (enabled e2) (display e2) = Some l" by simp
  note second_toggle = toggleList_found_written[OF mem2 tog2 io(2), of errMsg2]
  have idx: "firstMatch l' ?toggled = ?i"
    using firstMatch_update[of "display e" ?ls l'] l ed first by simp
  have undone: "?toggled[?i := l] = ?ls"
    using i by (simp add: list_update_same_conv)
  from second_toggle(2) have w2: "files (outcomeWorld ?mid (toggleList io2 e2 errMsg2 ?mid)) f
                                    = Some (writeLines ?ls)"
    unfolding e2f e2d rd1 idx undone .
  with writeLines_getlines[OF nl]
  have final: "files (outcomeWorld ?mid (toggleList io2 e2 errMsg2 ?mid)) f = Some c" by simp
  show ?thesis
  proof (intro conjI ballI impI)
    show "outcomeOk (toggleList io1 e errMsg1 w)" by (rule first_toggle(1))
    show "\<exists>e' \<in> set (parseListFile (files ?mid) f). display e' = l'"
      using e2mem e2d by blast
  next
    fix e' assume a: "e' \<in> set (parseListFile (files ?mid) f)" and d: "display e' = l'"
    from reloaded[OF a d] have e': "e' = e2" .
    show "enabled e' = (\<not> enabled e)" unfolding e' by (rule en2)
    show "outcomeOk (toggleList io2 e' errMsg2 ?mid)" unfolding e' by (rule second_toggle(1))
    show "files (outcomeWorld ?mid (toggleList io2 e' errMsg2 ?mid)) f = Some c"
      unfolding e' by (rule final)
  qed
qed

section \<open>Shape of the block ranges\<close>

lemma rangesLoop_shape:
  "0 \<le> i \<Longrightarrow> (inB \<longrightarrow> 0 \<le> bs \<and> bs < i) \<Longrightarrow>
   (\<forall>r \<in> set (rangesLoop ls i bs inB).
       (if inB then bs else i) \<le> fst r \<and> fst r \<le> snd r \<and> snd r < i + int (length ls))
   \<and> sorted_wrt (\<lambda>r r'. snd r < fst r') (rangesLoop ls i bs inB)"
proof (induction ls arbitrary: i bs inB)
  case Nil
  then show ?case by auto
next
  case (Cons l ls)
  show ?case
  proof (cases "trimStr l = []")
    case blank: True
    show ?thesis
    proof (cases inB)
      case True
      with blank Cons.prems Cons.IH[of "i + 1" False bs] show ?thesis
        by (fastforce simp: Let_def)
    next
      case False
      with blank Cons.prems Cons.IH[of "i + 1" False bs] show ?thesis
        by (fastforce simp: Let_def)
    qed
  next
    case nonblank: False
    show ?thesis
    proof (cases inB)
      case True
      with nonblank Cons.prems Cons.IH[of "i + 1" True bs] show ?thesis
        by (fastforce simp: Let_def)
    next
      case False
      with nonblank Cons.prems Cons.IH[of "i + 1" True i] show ?thesis
        by (fastforce simp: Let_def)
    qed
  qed
qed

lemma blockRanges_shape:
  "(\<forall>r \<in> set (blockRanges ls). 0 \<le> fst r \<and> fst r \<le> snd r \<and> snd r < int (length ls))
   \<and> sorted_wrt (\<lambda>r r'. snd r < fst r') (blockRanges ls)"
  using rangesLoop_shape[of 0 False "- 1" ls] by (simp add: blockRanges_def)

lemma blockRanges_bounds:
  assumes "k < length (blockRanges ls)"
  shows "0 \<le> fst (blockRanges ls ! k)" "fst (blockRanges ls ! k) \<le> snd (blockRanges ls ! k)"
    "snd (blockRanges ls ! k) < int (length ls)"
  using blockRanges_shape[of ls] assms nth_mem by blast+

lemma blockRanges_before:
  assumes "j < k" "k < length (blockRanges ls)"
  shows "snd (blockRanges ls ! j) < fst (blockRanges ls ! k)"
  using blockRanges_shape[of ls] assms by (simp add: sorted_wrt_iff_nth_less)

lemma rangesLoop_blankness:
  "map (\<lambda>l. trimStr l = []) ls = map (\<lambda>l. trimStr l = []) ls' \<Longrightarrow>
   rangesLoop ls i bs inB = rangesLoop ls' i bs inB"
proof (induction ls arbitrary: ls' i bs inB)
  case Nil
  then show ?case by simp
next
  case (Cons l ls)
  then obtain l' ls2 where ls': "ls' = l' # ls2" by (cases ls') auto
  with Cons.prems have h: "(trimStr l = []) = (trimStr l' = [])"
    and t: "map (\<lambda>l. trimStr l = []) ls = map (\<lambda>l. trimStr l = []) ls2" by simp_all
  from Cons.IH[OF t] h show ?case unfolding ls' by (simp add: Let_def)
qed

lemma blockRanges_update:
  assumes "n < length ls" "trimStr (ls ! n) \<noteq> []" "trimStr x \<noteq> []"
  shows "blockRanges (ls[n := x]) = blockRanges ls"
proof -
  have "map (\<lambda>l. trimStr l = []) (ls[n := x]) = map (\<lambda>l. trimStr l = []) ls"
    using assms by (simp add: map_update list_update_same_conv)
  then show ?thesis unfolding blockRanges_def by (rule rangesLoop_blankness)
qed

lemma blockLines_update_outside:
  assumes "0 \<le> fst r" "snd r < int n"
  shows "blockLines (ls[n := x]) r = blockLines ls r"
proof -
  have "take (nat (snd r - fst r + 1)) (drop (nat (fst r)) (ls[n := x]))
        = take (nat (snd r - fst r + 1)) (drop (nat (fst r)) ls)"
  proof (cases "nat (fst r) \<le> n")
    case True
    with assms have "n - nat (fst r) \<ge> nat (snd r - fst r + 1)" by linarith
    with True show ?thesis by (simp add: drop_update_swap)
  next
    case False
    then show ?thesis by simp
  qed
  then show ?thesis by (simp add: blockLines_def)
qed

lemma blockLines_update_inside:
  assumes "0 \<le> fst r" "fst r \<le> i" "i \<le> snd r"
  shows "blockLines (ls[nat i := x]) r = (blockLines ls r)[nat (i - fst r) := x]"
proof -
  from assms have "nat (fst r) \<le> nat i" "nat i - nat (fst r) = nat (i - fst r)" by linarith+
  then show ?thesis by (simp add: blockLines_def drop_update_swap take_update_swap)
qed

section \<open>The Enabled line of a canonical block\<close>

lemma enabledLineText_facts:
  "trimStr (enabledLineText en) = enabledLineText en"
  "enabledLineText en \<noteq> []"
  "startsWith (enabledLineText en) ''Enabled:''"
  "CHR 0x0A \<notin> set (enabledLineText en)"
  by (simp_all add: enabledLineText_def trimStr_def isTrimWs_def startsWith_def)

lemma blockLineStep_enabledLineText:
  "blockLineStep st (enabledLineText en) = st\<lparr> bEnabled := en \<rparr>"
  by (simp add: blockLineStep_def enabledLineText_def trimStr_def isTrimWs_def startsWith_def
        charAt_def Let_def)

lemma blockLineStep_other:
  "\<not> startsWith (trimStr l) ''Enabled:'' \<Longrightarrow>
   blockLineStep (st\<lparr> bEnabled := b \<rparr>) l = (blockLineStep st l)\<lparr> bEnabled := b \<rparr>"
  by (simp add: blockLineStep_def Let_def)

lemma foldl_blockLineStep_other:
  "\<forall>l \<in> set ls. \<not> startsWith (trimStr l) ''Enabled:'' \<Longrightarrow>
   foldl blockLineStep (st\<lparr> bEnabled := b \<rparr>) ls = (foldl blockLineStep st ls)\<lparr> bEnabled := b \<rparr>"
  by (induction ls arbitrary: st) (simp_all add: blockLineStep_other)

lemma scanBlock_single_enabled:
  assumes "m < length B" "B ! m = enabledLineText en"
    and "\<forall>j < length B. j \<noteq> m \<longrightarrow> \<not> startsWith (trimStr (B ! j)) ''Enabled:''"
  shows "scanBlock (B[m := enabledLineText en'])
           = (foldl blockLineStep (foldl blockLineStep initBlockState (take m B)) (drop (Suc m) B))
               \<lparr> bEnabled := en' \<rparr>"
proof -
  have post: "\<forall>l \<in> set (drop (Suc m) B). \<not> startsWith (trimStr l) ''Enabled:''"
  proof
    fix l assume "l \<in> set (drop (Suc m) B)"
    then obtain j where "j < length (drop (Suc m) B)" "drop (Suc m) B ! j = l"
      by (auto simp: in_set_conv_nth)
    with assms(3) show "\<not> startsWith (trimStr l) ''Enabled:''" by auto
  qed
  have "B[m := enabledLineText en'] = take m B @ enabledLineText en' # drop (Suc m) B"
    using assms(1) by (rule upd_conv_take_nth_drop)
  then show ?thesis
    by (simp add: scanBlock_def blockLineStep_enabledLineText foldl_blockLineStep_other[OF post])
qed

lemma find_unique:
  "x \<in> set xs \<Longrightarrow> P x \<Longrightarrow> \<forall>y \<in> set xs. y \<noteq> x \<longrightarrow> \<not> P y \<Longrightarrow> List.find P xs = Some x"
  by (induction xs) auto

lemma findEnabledLine_range:
  assumes "findEnabledLine ls r = i" "0 \<le> i"
  shows "fst r \<le> i" "i \<le> snd r" "startsWith (trimStr (ls ! nat i)) ''Enabled:''"
proof -
  from assms obtain j where f: "List.find (\<lambda>i. startsWith (trimStr (ls ! nat i)) ''Enabled:'')
                                 [fst r..snd r] = Some j" and j: "j = i"
    by (auto simp: findEnabledLine_def split: option.splits)
  from f have "j \<in> set [fst r..snd r]" "startsWith (trimStr (ls ! nat j)) ''Enabled:''"
    by (auto simp: find_Some_iff)
  with j show "fst r \<le> i" "i \<le> snd r" "startsWith (trimStr (ls ! nat i)) ''Enabled:''"
    by simp_all
qed

lemma findEnabledLine_update:
  assumes c: "canonicalBlock en ls r" and r: "0 \<le> fst r" "snd r < int (length ls)"
  shows "findEnabledLine (ls[nat (findEnabledLine ls r) := enabledLineText en']) r
           = findEnabledLine ls r"
proof -
  let ?i = "findEnabledLine ls r"
  let ?ls' = "ls[nat ?i := enabledLineText en']"
  from c have i0: "0 \<le> ?i"
    and uniq: "\<forall>j \<in> set [fst r..snd r]. j = ?i \<or> \<not> startsWith (trimStr (ls ! nat j)) ''Enabled:''"
    by (simp_all add: canonicalBlock_def Let_def list_all_iff)
  note rg = findEnabledLine_range[OF refl i0]
  from rg r have len: "nat ?i < length ls" by linarith
  have "List.find (\<lambda>j. startsWith (trimStr (?ls' ! nat j)) ''Enabled:'') [fst r..snd r] = Some ?i"
  proof (rule find_unique)
    show "?i \<in> set [fst r..snd r]" using rg by simp
    show "startsWith (trimStr (?ls' ! nat ?i)) ''Enabled:''"
      using len by (simp add: enabledLineText_facts)
    show "\<forall>y \<in> set [fst r..snd r]. y \<noteq> ?i \<longrightarrow> \<not> startsWith (trimStr (?ls' ! nat y)) ''Enabled:''"
    proof (intro ballI impI)
      fix y assume y: "y \<in> set [fst r..snd r]" "y \<noteq> ?i"
      with r i0 have "nat y \<noteq> nat ?i" by auto
      then have "?ls' ! nat y = ls ! nat y" by simp
      with uniq y show "\<not> startsWith (trimStr (?ls' ! nat y)) ''Enabled:''" by auto
    qed
  qed
  then show ?thesis by (simp add: findEnabledLine_def)
qed

lemma scanBlock_toggled:
  assumes c: "canonicalBlock en ls r"
    and r: "0 \<le> fst r" "fst r \<le> snd r" "snd r < int (length ls)"
  shows "scanBlock (blockLines (ls[nat (findEnabledLine ls r) := enabledLineText en']) r)
           = (scanBlock (blockLines ls r))\<lparr> bEnabled := en' \<rparr>"
    and "bEnabled (scanBlock (blockLines ls r)) = en"
proof -
  let ?i = "findEnabledLine ls r"
  let ?B = "blockLines ls r"
  let ?m = "nat (?i - fst r)"
  from c have i0: "0 \<le> ?i" and etext: "ls ! nat ?i = enabledLineText en"
    and uniq: "\<forall>j \<in> set [fst r..snd r]. j = ?i \<or> \<not> startsWith (trimStr (ls ! nat j)) ''Enabled:''"
    by (simp_all add: canonicalBlock_def Let_def list_all_iff enabledLineText_def)
  note rg = findEnabledLine_range[OF refl i0]
  have lenB: "length ?B = nat (snd r - fst r + 1)"
    using r by (simp add: blockLines_def)
  have nthB: "\<And>j. j < length ?B \<Longrightarrow> ?B ! j = ls ! nat (fst r + int j)"
  proof -
    fix j assume "j < length ?B"
    with lenB r have "nat (fst r) + j < length ls" "j < nat (snd r - fst r + 1)" by linarith+
    then have "?B ! j = ls ! (nat (fst r) + j)" by (simp add: blockLines_def)
    moreover from r have "nat (fst r) + j = nat (fst r + int j)" by linarith
    ultimately show "?B ! j = ls ! nat (fst r + int j)" by simp
  qed
  from rg r lenB have m: "?m < length ?B" by linarith
  from rg have "fst r + int ?m = ?i" by simp
  with nthB[OF m] etext have Bm: "?B ! ?m = enabledLineText en" by simp
  have others: "\<forall>j < length ?B. j \<noteq> ?m \<longrightarrow> \<not> startsWith (trimStr (?B ! j)) ''Enabled:''"
  proof (intro allI impI)
    fix j assume j: "j < length ?B" "j \<noteq> ?m"
    with lenB rg have "fst r + int j \<in> set [fst r..snd r]" "fst r + int j \<noteq> ?i" by auto
    with uniq nthB[OF j(1)] show "\<not> startsWith (trimStr (?B ! j)) ''Enabled:''" by auto
  qed
  note s = scanBlock_single_enabled[OF m Bm others]
  have same: "?B[?m := enabledLineText en] = ?B"
    using list_update_id[of ?B ?m] Bm by simp
  from s[of en] same
  have old: "scanBlock ?B = (foldl blockLineStep (foldl blockLineStep initBlockState (take ?m ?B))
                               (drop (Suc ?m) ?B))\<lparr> bEnabled := en \<rparr>" by simp
  then show "bEnabled (scanBlock ?B) = en" by simp
  have "blockLines (ls[nat ?i := enabledLineText en']) r = ?B[?m := enabledLineText en']"
    using r(1) rg(1,2) by (rule blockLines_update_inside)
  with s[of en'] old
  show "scanBlock (blockLines (ls[nat ?i := enabledLineText en']) r)
          = (scanBlock ?B)\<lparr> bEnabled := en' \<rparr>" by simp
qed

lemma accepted_prefix_count:
  assumes "\<forall>j<k. P (xs ! j)" "k \<le> length xs"
  shows "length (filter P (take k xs)) = k"
proof -
  have "\<forall>x \<in> set (take k xs). P x"
  proof
    fix x assume "x \<in> set (take k xs)"
    then obtain j where "j < length (take k xs)" "take k xs ! j = x"
      by (auto simp: in_set_conv_nth)
    with assms show "P x" by auto
  qed
  then have "filter P (take k xs) = take k xs" by simp
  with assms(2) show ?thesis by simp
qed

lemma accepted_count_beyond:
  assumes "\<forall>j\<le>k. P (xs ! j)" "k < n" "n \<le> length xs"
  shows "k < length (filter P (take n xs))"
proof -
  from assms(2) have "take n xs = take (Suc k) xs @ take (n - Suc k) (drop (Suc k) xs)"
    by (metis Suc_leI le_add_diff_inverse take_add)
  then have "length (filter P (take n xs)) \<ge> length (filter P (take (Suc k) xs))" by simp
  moreover from assms have "length (filter P (take (Suc k) xs)) = Suc k"
    by (intro accepted_prefix_count) auto
  ultimately show ?thesis by simp
qed

lemma entriesOfBlock_fields:
  assumes "e \<in> set (entriesOfBlock f ls k)"
  shows "repoFile e = f"
    and "enabled e = bEnabled (scanBlock (physicalBlocks ls ! k))"
    and "blockIndex e = int (length (filter (\<lambda>b. \<not> blockRejected (scanBlock b))
                                       (take k (physicalBlocks ls))))"
    and "\<not> blockRejected (scanBlock (physicalBlocks ls ! k))"
  using assms
  by (auto simp: entriesOfBlock_def processBlock_def Let_def blockEntry_def parseBlocks_counter
           split: if_splits)

lemma toggleDeb822_found:
  assumes "0 \<le> blockIndex repo"
    and "blockIndex repo < int (length (blockRanges (readAllLines (files w) (repoFile repo))))"
    and "0 \<le> findEnabledLine (readAllLines (files w) (repoFile repo))
                (blockRanges (readAllLines (files w) (repoFile repo)) ! nat (blockIndex repo))"
  shows "toggleDeb822 io repo errMsg w
           = commitLines io (repoFile repo)
               ((readAllLines (files w) (repoFile repo))
                  [nat (findEnabledLine (readAllLines (files w) (repoFile repo))
                          (blockRanges (readAllLines (files w) (repoFile repo))
                             ! nat (blockIndex repo)))
                     := enabledLineText (\<not> enabled repo)])
               errMsg w"
  using assms by (simp add: toggleDeb822_def Let_def enabledLineText_def)

lemma commitLines_written:
  assumes "writeIO io = WriteSucceeds"
  shows "fst (commitLines io f ls errMsg w)"
    and "files (snd (snd (commitLines io f ls errMsg w))) f = Some (writeLines ls)"
  using assms by (rule_tac [!] commitLines_result[of io f ls errMsg w]) simp_all

lemma parseSourcesLines_entriesOfBlock:
  "parseSourcesLines path ls
     = concat (map (entriesOfBlock path ls) [0..<length (blockRanges ls)])"
proof -
  have len: "length (physicalBlocks ls) = length (blockRanges ls)"
    by (simp add: physicalBlocks_def)
  show ?thesis
    unfolding parseSourcesLines_physicalBlocks parseBlocks_concat[of path 0] len entriesOfBlock_def ..
qed

lemma blockRejected_bEnabled: "blockRejected (st\<lparr> bEnabled := b \<rparr>) = blockRejected st"
  by (simp add: blockRejected_def)

lemma toggleDeb822_twice:
  assumes content: "files w f = Some c" and nl: "newlineTerminated c"
    and k: "k < length (blockRanges (getlines c))"
    and e: "e \<in> set (entriesOfBlock f (getlines c) k)"
    and acc: "\<forall>j<k. blockAcceptedAt (getlines c) j"
    and canon: "canonicalBlock (enabled e) (getlines c) (blockRanges (getlines c) ! k)"
    and io: "writeIO io1 = WriteSucceeds" "writeIO io2 = WriteSucceeds"
  shows "fst (toggleDeb822 io1 e errMsg1 w)"
    and "\<exists>e' \<in> set (parseSourcesFile (files (snd (snd (toggleDeb822 io1 e errMsg1 w)))) f).
           blockIndex e' = blockIndex e"
    and "\<forall>e' \<in> set (parseSourcesFile (files (snd (snd (toggleDeb822 io1 e errMsg1 w)))) f).
           blockIndex e' = blockIndex e \<longrightarrow>
             enabled e' = (\<not> enabled e)
             \<and> fst (toggleDeb822 io2 e' errMsg2 (snd (snd (toggleDeb822 io1 e errMsg1 w))))
             \<and> files (snd (snd (toggleDeb822 io2 e' errMsg2
                                     (snd (snd (toggleDeb822 io1 e errMsg1 w)))))) f = Some c"
proof -
  let ?ls = "getlines c"
  let ?rs = "blockRanges ?ls"
  let ?b = "?rs ! k"
  let ?i = "findEnabledLine ?ls ?b"
  let ?new = "?ls[nat ?i := enabledLineText (\<not> enabled e)]"
  let ?PB = "physicalBlocks ?ls"
  let ?PBn = "physicalBlocks ?new"
  let ?A = "\<lambda>b. \<not> blockRejected (scanBlock b)"
  let ?mid = "snd (snd (toggleDeb822 io1 e errMsg1 w))"
  note ef = entriesOfBlock_fields[OF e]
  have lenPB: "length ?PB = length ?rs" by (simp add: physicalBlocks_def)
  from acc have accPB: "\<forall>j<k. ?A (?PB ! j)" by (simp add: blockAcceptedAt_def)
  from ef(3) accepted_prefix_count[of k ?A ?PB] accPB k lenPB
  have bi: "blockIndex e = int k" by simp
  note bnds = blockRanges_bounds[OF k]
  from canon have i0: "0 \<le> ?i" and oldtext: "?ls ! nat ?i = enabledLineText (enabled e)"
    by (simp_all add: canonicalBlock_def Let_def enabledLineText_def)
  note rg = findEnabledLine_range[OF refl i0]
  from rg bnds have ilen: "nat ?i < length ?ls" by linarith
  have rd: "readAllLines (files w) f = ?ls" using content by (simp add: readAllLines_def)
  have t1: "toggleDeb822 io1 e errMsg1 w = commitLines io1 f ?new errMsg1 w"
    using toggleDeb822_found[of e w io1 errMsg1] bi k i0 rd ef(1) by simp
  from commitLines_written[OF io(1), of f ?new errMsg1 w]
  have ok1: "fst (toggleDeb822 io1 e errMsg1 w)"
    and mid: "files ?mid f = Some (writeLines ?new)"
    unfolding t1 by simp_all
  show "fst (toggleDeb822 io1 e errMsg1 w)" by (rule ok1)
  have nonl: "\<forall>x \<in> set ?new. CHR 0x0A \<notin> set x"
  proof
    fix x assume "x \<in> set ?new"
    then have "x = enabledLineText (\<not> enabled e) \<or> x \<in> set ?ls"
      using set_update_subset_insert by fastforce
    then show "CHR 0x0A \<notin> set x"
      using enabledLineText_facts(4) getlines_no_newline by blast
  qed
  have rd1: "readAllLines (files ?mid) f = ?new"
    using mid getlines_writeLines[OF nonl] by (simp add: readAllLines_def)
  have parsed: "parseSourcesFile (files ?mid) f = parseSourcesLines f ?new"
    using mid getlines_writeLines[OF nonl] by (simp add: parseSourcesFile_def)
  have rsn: "blockRanges ?new = ?rs"
    using ilen oldtext by (intro blockRanges_update) (simp_all add: enabledLineText_facts)
  have fi: "findEnabledLine ?new ?b = ?i"
    using canon bnds(1,3) by (rule findEnabledLine_update)
  have before: "\<forall>j<k. ?PBn ! j = ?PB ! j"
  proof (intro allI impI)
    fix j assume j: "j < k"
    with k have jl: "j < length ?rs" by simp
    from blockRanges_before[OF j k] rg(1) i0 have "snd (?rs ! j) < int (nat ?i)" by simp
    with blockRanges_bounds(1)[OF jl]
    have "blockLines ?new (?rs ! j) = blockLines ?ls (?rs ! j)"
      by (intro blockLines_update_outside)
    with jl show "?PBn ! j = ?PB ! j" by (simp add: physicalBlocks_def rsn)
  qed
  have PBn_k: "?PBn ! k = blockLines ?new ?b" using k by (simp add: physicalBlocks_def rsn)
  have PB_k: "?PB ! k = blockLines ?ls ?b" using k by (simp add: physicalBlocks_def)
  note st = scanBlock_toggled[OF canon bnds]
  have scan_k: "scanBlock (?PBn ! k) = (scanBlock (?PB ! k))\<lparr> bEnabled := \<not> enabled e \<rparr>"
    unfolding PBn_k PB_k by (rule st(1))
  have accn: "\<forall>j\<le>k. ?A (?PBn ! j)"
  proof (intro allI impI)
    fix j assume "j \<le> k"
    then consider "j < k" | "j = k" by linarith
    then show "?A (?PBn ! j)"
    proof cases
      case 1
      with before accPB show ?thesis by simp
    next
      case 2
      with scan_k ef(4) show ?thesis by (simp add: blockRejected_bEnabled)
    qed
  qed
  have lenPBn: "length ?PBn = length ?rs" by (simp add: physicalBlocks_def rsn)
  have at_k: "\<And>e' j. j < length ?rs \<Longrightarrow> e' \<in> set (entriesOfBlock f ?new j) \<Longrightarrow>
                 blockIndex e' = int k \<Longrightarrow> j = k"
  proof -
    fix e' j assume j: "j < length ?rs" and m: "e' \<in> set (entriesOfBlock f ?new j)"
      and b: "blockIndex e' = int k"
    from entriesOfBlock_fields(3)[OF m] b
    have cnt: "length (filter ?A (take j ?PBn)) = k" by simp
    show "j = k"
    proof (rule ccontr)
      assume "j \<noteq> k"
      then consider "j < k" | "k < j" by linarith
      then show False
      proof cases
        case 1
        with accn have "\<forall>m<j. ?A (?PBn ! m)" by simp
        from accepted_prefix_count[OF this] j lenPBn cnt 1 show False by simp
      next
        case 2
        from accepted_count_beyond[OF accn 2] j lenPBn cnt show False by simp
      qed
    qed
  qed
  have reloaded: "\<And>e'. e' \<in> set (parseSourcesFile (files ?mid) f) \<Longrightarrow> blockIndex e' = blockIndex e
                    \<Longrightarrow> e' \<in> set (entriesOfBlock f ?new k)"
  proof -
    fix e' assume "e' \<in> set (parseSourcesFile (files ?mid) f)" and b: "blockIndex e' = blockIndex e"
    then obtain j where j: "j < length ?rs" and m: "e' \<in> set (entriesOfBlock f ?new j)"
      unfolding parsed parseSourcesLines_entriesOfBlock rsn by auto
    from at_k[OF j m] b bi have "j = k" by simp
    with m show "e' \<in> set (entriesOfBlock f ?new k)" by simp
  qed
  have second: "\<And>e'. e' \<in> set (entriesOfBlock f ?new k) \<Longrightarrow>
                   blockIndex e' = blockIndex e \<and> enabled e' = (\<not> enabled e)
                   \<and> fst (toggleDeb822 io2 e' errMsg2 ?mid)
                   \<and> files (snd (snd (toggleDeb822 io2 e' errMsg2 ?mid))) f = Some c"
  proof -
    fix e' assume m: "e' \<in> set (entriesOfBlock f ?new k)"
    note ef' = entriesOfBlock_fields[OF m]
    from accn have "\<forall>j<k. ?A (?PBn ! j)" by simp
    from ef'(3) accepted_prefix_count[OF this] k lenPBn
    have bi': "blockIndex e' = int k" by simp
    from ef'(2) scan_k have en': "enabled e' = (\<not> enabled e)" by simp
    have "toggleDeb822 io2 e' errMsg2 ?mid
            = commitLines io2 f (?new[nat ?i := enabledLineText (\<not> enabled e')]) errMsg2 ?mid"
      using toggleDeb822_found[of e' ?mid io2 errMsg2] bi' k i0 rd1 ef'(1) rsn fi by simp
    moreover have "?new[nat ?i := enabledLineText (\<not> enabled e')] = ?ls"
      using en' oldtext list_update_id[of ?ls "nat ?i"] by simp
    ultimately have t2: "toggleDeb822 io2 e' errMsg2 ?mid = commitLines io2 f ?ls errMsg2 ?mid"
      by simp
    from commitLines_written[OF io(2), of f ?ls errMsg2 ?mid] writeLines_getlines[OF nl]
    have "fst (toggleDeb822 io2 e' errMsg2 ?mid)"
      and "files (snd (snd (toggleDeb822 io2 e' errMsg2 ?mid))) f = Some c"
      unfolding t2 by simp_all
    with bi bi' en' show "blockIndex e' = blockIndex e \<and> enabled e' = (\<not> enabled e)
                   \<and> fst (toggleDeb822 io2 e' errMsg2 ?mid)
                   \<and> files (snd (snd (toggleDeb822 io2 e' errMsg2 ?mid))) f = Some c"
      by simp
  qed
  show "\<exists>e' \<in> set (parseSourcesFile (files ?mid) f). blockIndex e' = blockIndex e"
  proof -
    from accn have "?A (?PBn ! k)" by simp
    then have "entriesOfBlock f ?new k \<noteq> []"
      by (simp add: entriesOfBlock_def processBlock_accepted_nonempty)
    then obtain e' where m: "e' \<in> set (entriesOfBlock f ?new k)" by (cases "entriesOfBlock f ?new k") auto
    with k have "e' \<in> set (parseSourcesFile (files ?mid) f)"
      unfolding parsed parseSourcesLines_entriesOfBlock rsn by auto
    with second[OF m] show ?thesis by blast
  qed
  show "\<forall>e' \<in> set (parseSourcesFile (files ?mid) f).
           blockIndex e' = blockIndex e \<longrightarrow>
             enabled e' = (\<not> enabled e)
             \<and> fst (toggleDeb822 io2 e' errMsg2 ?mid)
             \<and> files (snd (snd (toggleDeb822 io2 e' errMsg2 ?mid))) f = Some c"
    using reloaded second by blast
qed

text \<open>
  C2, as amended. Take a file that is empty or ends with a newline, and let both atomic
  writes succeed. For a one-line entry loaded from it whose line is in the form the
  toggle writes (active: no surrounding whitespace; disabled: \<open>"# "\<close> and a text without
  surrounding whitespace) and whose toggled text does not occur in the file before the
  first occurrence of the line: the first toggle succeeds, the reloaded list has an entry
  for the toggled line, and toggling any such entry gives the file its content of before
  the two toggles back, byte for byte. For a paragraph entry parsed from a block that no
  rejected block precedes and that holds exactly one Enabled line, reading
  \<open>Enabled: yes\<close> or \<open>Enabled: no\<close> as the entry is enabled or not: the first
  toggle succeeds, the reloaded list has an entry with the same block index, and toggling
  any such entry gives the content back, byte for byte.
\<close>

theorem toggle_twice_round_trip:
  "files w f = Some c \<and> newlineTerminated c
   \<and> writeIO io1 = WriteSucceeds \<and> writeIO io2 = WriteSucceeds \<longrightarrow>
     (e \<in> set (parseListFile (files w) f)
      \<and> canonicalLine (enabled e) (display e)
      \<and> toggledLine (enabled e) (display e) = Some l'
      \<and> l' \<notin> set (takeWhile (\<lambda>l. l \<noteq> display e) (getlines c)) \<longrightarrow>
        outcomeOk (toggleList io1 e errMsg1 w)
        \<and> (\<exists>e' \<in> set (parseListFile (files (outcomeWorld w (toggleList io1 e errMsg1 w))) f).
              display e' = l')
        \<and> (\<forall>e' \<in> set (parseListFile (files (outcomeWorld w (toggleList io1 e errMsg1 w))) f).
              display e' = l' \<longrightarrow>
                enabled e' = (\<not> enabled e)
                \<and> outcomeOk (toggleList io2 e' errMsg2 (outcomeWorld w (toggleList io1 e errMsg1 w)))
                \<and> files (outcomeWorld (outcomeWorld w (toggleList io1 e errMsg1 w))
                           (toggleList io2 e' errMsg2
                              (outcomeWorld w (toggleList io1 e errMsg1 w)))) f = Some c))
   \<and> (k < length (blockRanges (getlines c))
      \<and> d \<in> set (entriesOfBlock f (getlines c) k)
      \<and> (\<forall>j<k. blockAcceptedAt (getlines c) j)
      \<and> canonicalBlock (enabled d) (getlines c) (blockRanges (getlines c) ! k) \<longrightarrow>
        d \<in> set (parseSourcesFile (files w) f)
        \<and> fst (toggleDeb822 io1 d errMsg1 w)
        \<and> (\<exists>d' \<in> set (parseSourcesFile (files (snd (snd (toggleDeb822 io1 d errMsg1 w)))) f).
              blockIndex d' = blockIndex d)
        \<and> (\<forall>d' \<in> set (parseSourcesFile (files (snd (snd (toggleDeb822 io1 d errMsg1 w)))) f).
              blockIndex d' = blockIndex d \<longrightarrow>
                enabled d' = (\<not> enabled d)
                \<and> fst (toggleDeb822 io2 d' errMsg2 (snd (snd (toggleDeb822 io1 d errMsg1 w))))
                \<and> files (snd (snd (toggleDeb822 io2 d' errMsg2
                                       (snd (snd (toggleDeb822 io1 d errMsg1 w)))))) f = Some c))"
proof (intro impI conjI; (elim conjE)?)
  assume content: "files w f = Some c" and nl: "newlineTerminated c"
    and io: "writeIO io1 = WriteSucceeds" "writeIO io2 = WriteSucceeds"
  {
    assume a: "e \<in> set (parseListFile (files w) f)" "canonicalLine (enabled e) (display e)"
      "toggledLine (enabled e) (display e) = Some l'"
      "l' \<notin> set (takeWhile (\<lambda>l. l \<noteq> display e) (getlines c))"
    note r = toggleList_twice[OF content nl a io, of errMsg1 errMsg2]
    from r show "outcomeOk (toggleList io1 e errMsg1 w)" by (rule conjunct1)
    from r show "\<exists>e' \<in> set (parseListFile (files (outcomeWorld w (toggleList io1 e errMsg1 w))) f).
              display e' = l'" by blast
    from r show "\<forall>e' \<in> set (parseListFile (files (outcomeWorld w (toggleList io1 e errMsg1 w))) f).
              display e' = l' \<longrightarrow>
                enabled e' = (\<not> enabled e)
                \<and> outcomeOk (toggleList io2 e' errMsg2 (outcomeWorld w (toggleList io1 e errMsg1 w)))
                \<and> files (outcomeWorld (outcomeWorld w (toggleList io1 e errMsg1 w))
                           (toggleList io2 e' errMsg2
                              (outcomeWorld w (toggleList io1 e errMsg1 w)))) f = Some c"
      by blast
  }
  {
    assume b: "k < length (blockRanges (getlines c))"
      "d \<in> set (entriesOfBlock f (getlines c) k)"
      "\<forall>j<k. blockAcceptedAt (getlines c) j"
      "canonicalBlock (enabled d) (getlines c) (blockRanges (getlines c) ! k)"
    from b(1,2) content show "d \<in> set (parseSourcesFile (files w) f)"
      by (auto simp: parseSourcesFile_def parseSourcesLines_entriesOfBlock)
    note r = toggleDeb822_twice[OF content nl b io]
    show "fst (toggleDeb822 io1 d errMsg1 w)" by (rule r(1))
    show "\<exists>d' \<in> set (parseSourcesFile (files (snd (snd (toggleDeb822 io1 d errMsg1 w)))) f).
              blockIndex d' = blockIndex d" by (rule r(2))
    show "\<forall>d' \<in> set (parseSourcesFile (files (snd (snd (toggleDeb822 io1 d errMsg1 w)))) f).
              blockIndex d' = blockIndex d \<longrightarrow>
                enabled d' = (\<not> enabled d)
                \<and> fst (toggleDeb822 io2 d' errMsg2 (snd (snd (toggleDeb822 io1 d errMsg1 w))))
                \<and> files (snd (snd (toggleDeb822 io2 d' errMsg2
                                       (snd (snd (toggleDeb822 io1 d errMsg1 w)))))) f = Some c"
      by (rule r(3))
  }
qed

theorem toggle_twice_round_trip_witness:
  "files (outcomeWorld
        (outcomeWorld
           \<lparr> files = [''/l'' \<mapsto> ''deb u s'' @ [CHR 0x0A]], undoStack = [], backupDir = ''/b'' \<rparr>
           (toggleList \<lparr> backupIO = CopySucceeds, timestamp = ''20240101_120000'', writeIO = WriteSucceeds \<rparr>
              \<lparr> repoFile = ''/l'', display = ''deb u s'', enabled = True, isDeb822 = False,
                blockIndex = - 1, uri = ''u'', suite = ''s'', components = [], types = ''deb'' \<rparr> []
              \<lparr> files = [''/l'' \<mapsto> ''deb u s'' @ [CHR 0x0A]], undoStack = [],
                backupDir = ''/b'' \<rparr>))
        (toggleList \<lparr> backupIO = CopySucceeds, timestamp = ''20240101_120001'', writeIO = WriteSucceeds \<rparr>
           \<lparr> repoFile = ''/l'', display = ''# deb u s'', enabled = False, isDeb822 = False,
             blockIndex = - 1, uri = ''u'', suite = ''s'', components = [], types = ''deb'' \<rparr> []
           (outcomeWorld
              \<lparr> files = [''/l'' \<mapsto> ''deb u s'' @ [CHR 0x0A]], undoStack = [], backupDir = ''/b'' \<rparr>
              (toggleList \<lparr> backupIO = CopySucceeds, timestamp = ''20240101_120000'', writeIO = WriteSucceeds \<rparr>
                 \<lparr> repoFile = ''/l'', display = ''deb u s'', enabled = True, isDeb822 = False,
                   blockIndex = - 1, uri = ''u'', suite = ''s'', components = [], types = ''deb'' \<rparr> []
                 \<lparr> files = [''/l'' \<mapsto> ''deb u s'' @ [CHR 0x0A]], undoStack = [],
                   backupDir = ''/b'' \<rparr>)))) ''/l''
     = Some (''deb u s'' @ [CHR 0x0A])
   \<and> files (snd (snd (toggleDeb822
        \<lparr> backupIO = CopySucceeds, timestamp = ''20240101_120001'', writeIO = WriteSucceeds \<rparr>
        \<lparr> repoFile = ''/s'', display = ''deb http://a s'', enabled = False, isDeb822 = True,
          blockIndex = 0, uri = ''http://a'', suite = ''s'', components = [], types = ''deb'' \<rparr> []
        (snd (snd (toggleDeb822
           \<lparr> backupIO = CopySucceeds, timestamp = ''20240101_120000'', writeIO = WriteSucceeds \<rparr>
           \<lparr> repoFile = ''/s'', display = ''deb http://a s'', enabled = True, isDeb822 = True,
             blockIndex = 0, uri = ''http://a'', suite = ''s'', components = [], types = ''deb'' \<rparr> []
           \<lparr> files = [''/s'' \<mapsto> ''Types: deb'' @ [CHR 0x0A] @ ''URIs: http://a'' @ [CHR 0x0A]
                          @ ''Suites: s'' @ [CHR 0x0A] @ ''Enabled: yes'' @ [CHR 0x0A]],
             undoStack = [], backupDir = ''/b'' \<rparr>)))))) ''/s''
     = Some (''Types: deb'' @ [CHR 0x0A] @ ''URIs: http://a'' @ [CHR 0x0A]
               @ ''Suites: s'' @ [CHR 0x0A] @ ''Enabled: yes'' @ [CHR 0x0A])"
proof -
  let ?io = "\<lparr> backupIO = CopySucceeds, timestamp = ''20240101_120000'', writeIO = WriteSucceeds \<rparr>"
  let ?io' = "\<lparr> backupIO = CopySucceeds, timestamp = ''20240101_120001'', writeIO = WriteSucceeds \<rparr>"
  let ?w = "\<lparr> files = [''/l'' \<mapsto> ''deb u s'' @ [CHR 0x0A]], undoStack = [], backupDir = ''/b'' \<rparr>"
  let ?e = "\<lparr> repoFile = ''/l'', display = ''deb u s'', enabled = True, isDeb822 = False,
             blockIndex = - 1, uri = ''u'', suite = ''s'', components = [], types = ''deb'' \<rparr>"
  let ?e' = "\<lparr> repoFile = ''/l'', display = ''# deb u s'', enabled = False, isDeb822 = False,
             blockIndex = - 1, uri = ''u'', suite = ''s'', components = [], types = ''deb'' \<rparr>"
  let ?mid = "outcomeWorld ?w (toggleList ?io ?e [] ?w)"
  let ?c = "''deb u s'' @ [CHR 0x0A]"
  let ?pc = "''Types: deb'' @ [CHR 0x0A] @ ''URIs: http://a'' @ [CHR 0x0A]
               @ ''Suites: s'' @ [CHR 0x0A] @ ''Enabled: yes'' @ [CHR 0x0A]"
  let ?v = "\<lparr> files = [''/s'' \<mapsto> ?pc], undoStack = [], backupDir = ''/b'' \<rparr>"
  let ?d = "\<lparr> repoFile = ''/s'', display = ''deb http://a s'', enabled = True, isDeb822 = True,
             blockIndex = 0, uri = ''http://a'', suite = ''s'', components = [], types = ''deb'' \<rparr>"
  let ?d' = "\<lparr> repoFile = ''/s'', display = ''deb http://a s'', enabled = False, isDeb822 = True,
             blockIndex = 0, uri = ''http://a'', suite = ''s'', components = [], types = ''deb'' \<rparr>"
  let ?vmid = "snd (snd (toggleDeb822 ?io ?d [] ?v))"
  have g: "files ?w ''/l'' = Some ?c \<and> newlineTerminated ?c
           \<and> writeIO ?io = WriteSucceeds \<and> writeIO ?io' = WriteSucceeds"
    by (simp add: newlineTerminated_def)
  have h3: "?e \<in> set (parseListFile (files ?w) ''/l'')" by code_simp
  have h4: "canonicalLine (enabled ?e) (display ?e)" by code_simp
  have h5: "toggledLine (enabled ?e) (display ?e) = Some ''# deb u s''" by code_simp
  have h6: "''# deb u s'' \<notin> set (takeWhile (\<lambda>l. l \<noteq> display ?e) (getlines ?c))"
    by code_simp
  have r: "?e' \<in> set (parseListFile (files ?mid) ''/l'')" by code_simp
  have dsp: "display ?e' = ''# deb u s''" by simp
  from toggle_twice_round_trip[of ?w "''/l''" ?c ?io ?io' ?e "''# deb u s''" "[]" "[]"]
    g h3 h4 h5 h6 r dsp
  have one: "files (outcomeWorld ?mid (toggleList ?io' ?e' [] ?mid)) ''/l'' = Some ?c"
    by blast
  have pg: "files ?v ''/s'' = Some ?pc \<and> newlineTerminated ?pc
           \<and> writeIO ?io = WriteSucceeds \<and> writeIO ?io' = WriteSucceeds"
    by (simp add: newlineTerminated_def)
  have p1: "(0::nat) < length (blockRanges (getlines ?pc))" by code_simp
  have p2: "?d \<in> set (entriesOfBlock ''/s'' (getlines ?pc) 0)" by code_simp
  have p3: "\<forall>j<(0::nat). blockAcceptedAt (getlines ?pc) j" by simp
  have p4: "canonicalBlock (enabled ?d) (getlines ?pc) (blockRanges (getlines ?pc) ! 0)"
    by code_simp
  have q: "?d' \<in> set (parseSourcesFile (files ?vmid) ''/s'')" by code_simp
  have bi: "blockIndex ?d' = blockIndex ?d" by simp
  from toggle_twice_round_trip[of ?v "''/s''" ?pc ?io ?io' _ _ "[]" "[]" 0 ?d]
    pg p1 p2 p3 p4 q bi
  have two: "files (snd (snd (toggleDeb822 ?io' ?d' [] ?vmid))) ''/s'' = Some ?pc"
    by blast
  from one two show ?thesis by (intro conjI)
qed

text \<open>
  The claim as stated fails on the disabled line \<open>#deb u s\<close>, a form the parser
  accepts: the first toggle writes \<open>deb u s\<close>, the second prefixes \<open>"# "\<close>, and the
  file ends with \<open># deb u s\<close>.
\<close>

theorem toggle_twice_counterexample:
  "parseListFile [''/l'' \<mapsto> ''#deb u s'' @ [CHR 0x0A]] ''/l''
     = [\<lparr> repoFile = ''/l'', display = ''#deb u s'', enabled = False, isDeb822 = False,
           blockIndex = - 1, uri = ''u'', suite = ''s'', components = [], types = ''deb'' \<rparr>]
   \<and> parseListFile (files (outcomeWorld
          \<lparr> files = [''/l'' \<mapsto> ''#deb u s'' @ [CHR 0x0A]], undoStack = [], backupDir = ''/b'' \<rparr>
          (toggleList \<lparr> backupIO = CopySucceeds, timestamp = ''20240101_120000'', writeIO = WriteSucceeds \<rparr>
             \<lparr> repoFile = ''/l'', display = ''#deb u s'', enabled = False, isDeb822 = False,
               blockIndex = - 1, uri = ''u'', suite = ''s'', components = [], types = ''deb'' \<rparr> []
             \<lparr> files = [''/l'' \<mapsto> ''#deb u s'' @ [CHR 0x0A]], undoStack = [],
               backupDir = ''/b'' \<rparr>))) ''/l''
     = [\<lparr> repoFile = ''/l'', display = ''deb u s'', enabled = True, isDeb822 = False,
           blockIndex = - 1, uri = ''u'', suite = ''s'', components = [], types = ''deb'' \<rparr>]
   \<and> files (outcomeWorld
        (outcomeWorld
          \<lparr> files = [''/l'' \<mapsto> ''#deb u s'' @ [CHR 0x0A]], undoStack = [], backupDir = ''/b'' \<rparr>
          (toggleList \<lparr> backupIO = CopySucceeds, timestamp = ''20240101_120000'', writeIO = WriteSucceeds \<rparr>
             \<lparr> repoFile = ''/l'', display = ''#deb u s'', enabled = False, isDeb822 = False,
               blockIndex = - 1, uri = ''u'', suite = ''s'', components = [], types = ''deb'' \<rparr> []
             \<lparr> files = [''/l'' \<mapsto> ''#deb u s'' @ [CHR 0x0A]], undoStack = [],
               backupDir = ''/b'' \<rparr>))
        (toggleList \<lparr> backupIO = CopySucceeds, timestamp = ''20240101_120001'', writeIO = WriteSucceeds \<rparr>
           \<lparr> repoFile = ''/l'', display = ''deb u s'', enabled = True, isDeb822 = False,
             blockIndex = - 1, uri = ''u'', suite = ''s'', components = [], types = ''deb'' \<rparr> []
           (outcomeWorld
             \<lparr> files = [''/l'' \<mapsto> ''#deb u s'' @ [CHR 0x0A]], undoStack = [], backupDir = ''/b'' \<rparr>
             (toggleList \<lparr> backupIO = CopySucceeds, timestamp = ''20240101_120000'', writeIO = WriteSucceeds \<rparr>
                \<lparr> repoFile = ''/l'', display = ''#deb u s'', enabled = False, isDeb822 = False,
                  blockIndex = - 1, uri = ''u'', suite = ''s'', components = [], types = ''deb'' \<rparr> []
                \<lparr> files = [''/l'' \<mapsto> ''#deb u s'' @ [CHR 0x0A]], undoStack = [],
                  backupDir = ''/b'' \<rparr>)))) ''/l''
     = Some (''# deb u s'' @ [CHR 0x0A])"
  by code_simp

section \<open>What the mutation engine does at a block index\<close>

lemma dropRange_from:
  "0 \<le> s \<Longrightarrow> s \<le> e + 1 \<Longrightarrow>
   map snd (filter (\<lambda>(i, l). \<not> (int i \<ge> s \<and> int i \<le> e)) (zip [a..<a + length ls] ls))
     = take (nat s - a) ls @ drop (nat (e + 1) - a) ls"
proof (induction ls arbitrary: a)
  case Nil
  then show ?case by simp
next
  case (Cons x xs)
  have up: "[a..<a + length (x # xs)] = a # [Suc a..<Suc a + length xs]"
  proof -
    have "[a..<a + length (x # xs)] = a # [Suc a..<a + length (x # xs)]"
      by (rule upt_conv_Cons) simp
    moreover have "a + length (x # xs) = Suc a + length xs" by simp
    ultimately show ?thesis by (simp only:)
  qed
  note ih = Cons.IH[OF Cons.prems, of "Suc a"]
  consider "int a < s" | "s \<le> int a" "int a \<le> e" | "e < int a" by linarith
  then show ?case
  proof cases
    case 1
    with Cons.prems have "nat s - a = Suc (nat s - Suc a)" "nat (e + 1) - a = Suc (nat (e + 1) - Suc a)"
      by linarith+
    with 1 ih show ?thesis unfolding up by simp
  next
    case 2
    with Cons.prems have "nat s - a = 0" "nat s - Suc a = 0" "nat (e + 1) - a = Suc (nat (e + 1) - Suc a)"
      by linarith+
    with 2 ih show ?thesis unfolding up by simp
  next
    case 3
    with Cons.prems have "nat s - a = 0" "nat s - Suc a = 0" "nat (e + 1) - a = 0" "nat (e + 1) - Suc a = 0"
      by linarith+
    with 3 ih show ?thesis unfolding up by simp
  qed
qed

lemma dropRange_take_drop:
  "0 \<le> s \<Longrightarrow> s \<le> e + 1 \<Longrightarrow> dropRange ls s e = take (nat s) ls @ drop (nat (e + 1)) ls"
  using dropRange_from[of s e 0 ls] by (simp add: dropRange_def)

lemma physicalBlocks_first_nonblank:
  assumes k: "k < length (blockRanges ls)"
  shows "trimStr (ls ! nat (fst (blockRanges ls ! k))) \<noteq> []"
proof -
  let ?r = "blockRanges ls ! k"
  note b = blockRanges_bounds[OF k]
  have len: "length (physicalBlocks ls) = length (blockRanges ls)"
    by (simp add: physicalBlocks_def)
  with k have "physicalBlocks ls ! k \<in> set (groupLoop [] ls)"
    by (metis nth_mem physicalBlocks_groupLoop)
  with groupLoop_nonblank[of "[]" ls]
  have nb: "\<forall>l \<in> set (physicalBlocks ls ! k). trimStr l \<noteq> []" by simp
  have pk: "physicalBlocks ls ! k = blockLines ls ?r" using k by (simp add: physicalBlocks_def)
  from b have "nat (fst ?r) < length ls" "0 < nat (snd ?r - fst ?r + 1)" by linarith+
  then have "blockLines ls ?r \<noteq> []" "hd (blockLines ls ?r) = ls ! nat (fst ?r)"
    by (simp_all add: blockLines_def hd_drop_conv_nth)
  then have "ls ! nat (fst ?r) \<in> set (blockLines ls ?r)" by (metis hd_in_set)
  with nb pk show ?thesis by simp
qed

lemma entriesOfBlock_isDeb822:
  "e \<in> set (entriesOfBlock f ls k) \<Longrightarrow> isDeb822 e"
  by (auto simp: entriesOfBlock_def processBlock_def Let_def blockEntry_def split: if_splits)

lemma toggleDeb822_at_index:
  assumes "0 \<le> blockIndex repo"
    and "blockIndex repo < int (length (blockRanges (readAllLines (files w) (repoFile repo))))"
  shows "toggleDeb822 io repo errMsg w
           = commitLines io (repoFile repo)
               (let ls = readAllLines (files w) (repoFile repo);
                    r = blockRanges ls ! nat (blockIndex repo);
                    i = findEnabledLine ls r;
                    newVal = (if enabled repo then ''Enabled: no'' else ''Enabled: yes'')
                in if 0 \<le> i then ls[nat i := newVal]
                   else take (nat (fst r + 1)) ls @ [newVal] @ drop (nat (fst r + 1)) ls)
               errMsg w"
  using assms by (simp add: toggleDeb822_def Let_def)

lemma deleteRepoClean_at_index:
  assumes "isDeb822 repo" "0 \<le> blockIndex repo"
    and "blockIndex repo < int (length (blockRanges (readAllLines (files w) (repoFile repo))))"
  shows "deleteRepoClean io repo errMsg w
           = commitLines io (repoFile repo)
               (let ls = readAllLines (files w) (repoFile repo);
                    r = blockRanges ls ! nat (blockIndex repo);
                    bEnd = (if snd r + 1 < int (length ls) \<and> trimStr (ls ! nat (snd r + 1)) = []
                            then snd r + 1 else snd r)
                in take (nat (fst r)) ls @ drop (nat (bEnd + 1)) ls)
               errMsg w"
proof -
  let ?ls = "readAllLines (files w) (repoFile repo)"
  let ?r = "blockRanges ?ls ! nat (blockIndex repo)"
  from assms have n: "nat (blockIndex repo) < length (blockRanges ?ls)" by linarith
  note b = blockRanges_bounds[OF n]
  have "\<And>bEnd. snd ?r \<le> bEnd \<Longrightarrow>
          dropRange ?ls (fst ?r) bEnd = take (nat (fst ?r)) ?ls @ drop (nat (bEnd + 1)) ?ls"
    using b by (intro dropRange_take_drop) linarith+
  then show ?thesis using assms by (simp add: deleteRepoClean_def Let_def)
qed

section \<open>The block an entry designates to toggle and delete\<close>

text \<open>
  C1. The parser and the mutation engine enumerate the blocks of a \<open>.sources\<close> file
  differently. Both see the same physical blocks, the maximal runs of non-blank lines:
  the parser's output is the concatenation, over the ranges of \<open>blockRanges\<close> in order,
  of what \<open>processBlock\<close> pushes for each. The parser stores on each entry the number of
  accepted blocks before its own, since its counter moves only when a block is accepted.
  \<open>toggleDeb822\<close> and \<open>deleteRepoClean\<close> take the range at that index in the list of
  all ranges. So whenever a rejected block precedes an accepted block \<open>k\<close>, the
  \<open>blockIndex\<close> of every entry parsed from block \<open>k\<close> is a valid index smaller than
  \<open>k\<close>, and on the file the entry was parsed from both functions work on that other
  range, which ends before block \<open>k\<close> begins: \<open>toggleDeb822\<close> writes the lines with the
  Enabled line of that range replaced or inserted, \<open>deleteRepoClean\<close> writes the lines
  without that range and the blank line after it, and the lines of block \<open>k\<close> stay.
\<close>

theorem blockIndex_enumerations_differ:
  "parseSourcesLines path ls
     = concat (map (entriesOfBlock path ls) [0..<length (blockRanges ls)])
   \<and> concat (physicalBlocks ls) = filter (\<lambda>l. trimStr l \<noteq> []) ls
   \<and> (\<forall>k<length (blockRanges ls).
        physicalBlocks ls ! k \<noteq> []
        \<and> (blockAcceptedAt ls k \<longrightarrow> entriesOfBlock path ls k \<noteq> [])
        \<and> (\<forall>e \<in> set (entriesOfBlock path ls k).
              blockAcceptedAt ls k
              \<and> blockIndex e = int (length (filter (\<lambda>b. \<not> blockRejected (scanBlock b))
                                               (take k (physicalBlocks ls))))
              \<and> ((\<exists>j<k. \<not> blockAcceptedAt ls j) \<longrightarrow>
                   0 \<le> blockIndex e \<and> nat (blockIndex e) < k
                   \<and> blockRanges ls ! nat (blockIndex e) \<noteq> blockRanges ls ! k)
              \<and> ((\<exists>j<k. \<not> blockAcceptedAt ls j) \<and> readAllLines (files w) path = ls \<longrightarrow>
                   0 \<le> fst (designatedRange ls e)
                   \<and> fst (designatedRange ls e) \<le> snd (designatedRange ls e)
                   \<and> snd (designatedRange ls e) < fst (blockRanges ls ! k)
                   \<and> swallowedEnd ls (designatedRange ls e) < fst (blockRanges ls ! k)
                   \<and> (0 \<le> findEnabledLine ls (designatedRange ls e) \<longrightarrow>
                        fst (designatedRange ls e) \<le> findEnabledLine ls (designatedRange ls e)
                        \<and> findEnabledLine ls (designatedRange ls e) \<le> snd (designatedRange ls e))
                   \<and> toggleDeb822 io e errMsg w
                       = commitLines io path
                           (toggledLines ls (designatedRange ls e) (enabled e)) errMsg w
                   \<and> deleteRepoClean io e errMsg w
                       = commitLines io path
                           (take (nat (fst (designatedRange ls e))) ls
                            @ drop (nat (swallowedEnd ls (designatedRange ls e) + 1)) ls) errMsg w
                   \<and> (writeIO io = WriteSucceeds \<longrightarrow>
                        files (snd (snd (toggleDeb822 io e errMsg w))) path
                          = Some (writeLines (toggledLines ls (designatedRange ls e) (enabled e)))
                        \<and> files (snd (snd (deleteRepoClean io e errMsg w))) path
                          = Some (writeLines
                              (take (nat (fst (designatedRange ls e))) ls
                               @ drop (nat (swallowedEnd ls (designatedRange ls e) + 1)) ls))))))"
proof -
  note old = parser_block_indices[of path ls]
  have new: "0 \<le> fst (designatedRange ls e)
                   \<and> fst (designatedRange ls e) \<le> snd (designatedRange ls e)
                   \<and> snd (designatedRange ls e) < fst (blockRanges ls ! k)
                   \<and> swallowedEnd ls (designatedRange ls e) < fst (blockRanges ls ! k)
                   \<and> (0 \<le> findEnabledLine ls (designatedRange ls e) \<longrightarrow>
                        fst (designatedRange ls e) \<le> findEnabledLine ls (designatedRange ls e)
                        \<and> findEnabledLine ls (designatedRange ls e) \<le> snd (designatedRange ls e))
                   \<and> toggleDeb822 io e errMsg w
                       = commitLines io path
                           (toggledLines ls (designatedRange ls e) (enabled e)) errMsg w
                   \<and> deleteRepoClean io e errMsg w
                       = commitLines io path
                           (take (nat (fst (designatedRange ls e))) ls
                            @ drop (nat (swallowedEnd ls (designatedRange ls e) + 1)) ls) errMsg w
                   \<and> (writeIO io = WriteSucceeds \<longrightarrow>
                        files (snd (snd (toggleDeb822 io e errMsg w))) path
                          = Some (writeLines (toggledLines ls (designatedRange ls e) (enabled e)))
                        \<and> files (snd (snd (deleteRepoClean io e errMsg w))) path
                          = Some (writeLines
                              (take (nat (fst (designatedRange ls e))) ls
                               @ drop (nat (swallowedEnd ls (designatedRange ls e) + 1)) ls)))"
    if k: "k < length (blockRanges ls)" and e: "e \<in> set (entriesOfBlock path ls k)"
      and rej: "\<exists>j<k. \<not> blockAcceptedAt ls j" and rd: "readAllLines (files w) path = ls"
    for k e
  proof -
    let ?r = "designatedRange ls e"
    let ?rk = "blockRanges ls ! k"
    from old k e rej have i0: "0 \<le> blockIndex e" and nk: "nat (blockIndex e) < k" by blast+
    from nk k have n: "nat (blockIndex e) < length (blockRanges ls)" by simp
    with i0 have il: "blockIndex e < int (length (blockRanges ls))" by linarith
    note ef = entriesOfBlock_fields(1)[OF e] entriesOfBlock_isDeb822[OF e]
    have r: "?r = blockRanges ls ! nat (blockIndex e)" by (simp add: designatedRange_def)
    note b = blockRanges_bounds[OF n, folded r]
    from blockRanges_before[OF nk k] have before: "snd ?r < fst ?rk" unfolding r .
    have sw: "swallowedEnd ls ?r < fst ?rk"
    proof (cases "snd ?r + 1 < int (length ls) \<and> trimStr (ls ! nat (snd ?r + 1)) = []")
      case True
      with physicalBlocks_first_nonblank[OF k] have "nat (snd ?r + 1) \<noteq> nat (fst ?rk)" by auto
      with before b True show ?thesis by (simp add: swallowedEnd_def)
    next
      case False
      with before show ?thesis by (auto simp: swallowedEnd_def)
    qed
    have fe: "0 \<le> findEnabledLine ls ?r \<longrightarrow>
                fst ?r \<le> findEnabledLine ls ?r \<and> findEnabledLine ls ?r \<le> snd ?r"
      using findEnabledLine_range[OF refl, of ls ?r] by blast
    have tg: "toggleDeb822 io e errMsg w = commitLines io path (toggledLines ls ?r (enabled e)) errMsg w"
      using toggleDeb822_at_index[of e w io errMsg] i0 il rd ef(1)
      by (simp add: toggledLines_def designatedRange_def Let_def)
    have dl: "deleteRepoClean io e errMsg w
                = commitLines io path
                    (take (nat (fst ?r)) ls @ drop (nat (swallowedEnd ls ?r + 1)) ls) errMsg w"
      using deleteRepoClean_at_index[of e w io errMsg] i0 il rd ef
      by (simp add: swallowedEnd_def designatedRange_def Let_def)
    have wr: "writeIO io = WriteSucceeds \<longrightarrow>
                files (snd (snd (toggleDeb822 io e errMsg w))) path
                  = Some (writeLines (toggledLines ls ?r (enabled e)))
                \<and> files (snd (snd (deleteRepoClean io e errMsg w))) path
                  = Some (writeLines (take (nat (fst ?r)) ls
                                       @ drop (nat (swallowedEnd ls ?r + 1)) ls))"
      unfolding tg dl using commitLines_written(2) by blast
    from b(1,2) before sw fe tg dl wr show ?thesis by (intro conjI)
  qed
  from old new show ?thesis by blast
qed

theorem blockIndex_enumerations_differ_witness:
  "length (blockRanges [''# note'', '''', ''Types: deb'', ''URIs: http://a'', ''Suites: s'']) = 2
   \<and> \<not> blockAcceptedAt [''# note'', '''', ''Types: deb'', ''URIs: http://a'', ''Suites: s''] 0
   \<and> entriesOfBlock ''/p'' [''# note'', '''', ''Types: deb'', ''URIs: http://a'', ''Suites: s''] 1
       = [\<lparr> repoFile = ''/p'', display = ''deb http://a s'', enabled = True, isDeb822 = True,
             blockIndex = 0, uri = ''http://a'', suite = ''s'', components = [],
             types = ''deb'' \<rparr>]
   \<and> blockRanges [''# note'', '''', ''Types: deb'', ''URIs: http://a'', ''Suites: s''] ! 0
       \<noteq> blockRanges [''# note'', '''', ''Types: deb'', ''URIs: http://a'', ''Suites: s''] ! 1
   \<and> files (snd (snd (toggleDeb822
        \<lparr> backupIO = CopySucceeds, timestamp = ''20240101_120000'', writeIO = WriteSucceeds \<rparr>
        \<lparr> repoFile = ''/p'', display = ''deb http://a s'', enabled = True, isDeb822 = True,
          blockIndex = 0, uri = ''http://a'', suite = ''s'', components = [], types = ''deb'' \<rparr> []
        \<lparr> files = [''/p'' \<mapsto> ''# note'' @ [CHR 0x0A, CHR 0x0A] @ ''Types: deb'' @ [CHR 0x0A]
                       @ ''URIs: http://a'' @ [CHR 0x0A] @ ''Suites: s'' @ [CHR 0x0A]],
          undoStack = [], backupDir = ''/b'' \<rparr>))) ''/p''
       = Some (''# note'' @ [CHR 0x0A] @ ''Enabled: no'' @ [CHR 0x0A, CHR 0x0A] @ ''Types: deb''
                 @ [CHR 0x0A] @ ''URIs: http://a'' @ [CHR 0x0A] @ ''Suites: s'' @ [CHR 0x0A])
   \<and> files (snd (snd (deleteRepoClean
        \<lparr> backupIO = CopySucceeds, timestamp = ''20240101_120000'', writeIO = WriteSucceeds \<rparr>
        \<lparr> repoFile = ''/p'', display = ''deb http://a s'', enabled = True, isDeb822 = True,
          blockIndex = 0, uri = ''http://a'', suite = ''s'', components = [], types = ''deb'' \<rparr> []
        \<lparr> files = [''/p'' \<mapsto> ''# note'' @ [CHR 0x0A, CHR 0x0A] @ ''Types: deb'' @ [CHR 0x0A]
                       @ ''URIs: http://a'' @ [CHR 0x0A] @ ''Suites: s'' @ [CHR 0x0A]],
          undoStack = [], backupDir = ''/b'' \<rparr>))) ''/p''
       = Some (''Types: deb'' @ [CHR 0x0A] @ ''URIs: http://a'' @ [CHR 0x0A]
                 @ ''Suites: s'' @ [CHR 0x0A])"
proof -
  let ?ls = "[''# note'', '''', ''Types: deb'', ''URIs: http://a'', ''Suites: s'']"
  let ?e = "\<lparr> repoFile = ''/p'', display = ''deb http://a s'', enabled = True, isDeb822 = True,
             blockIndex = 0, uri = ''http://a'', suite = ''s'', components = [],
             types = ''deb'' \<rparr>"
  let ?io = "\<lparr> backupIO = CopySucceeds, timestamp = ''20240101_120000'', writeIO = WriteSucceeds \<rparr>"
  let ?w = "\<lparr> files = [''/p'' \<mapsto> ''# note'' @ [CHR 0x0A, CHR 0x0A] @ ''Types: deb'' @ [CHR 0x0A]
                       @ ''URIs: http://a'' @ [CHR 0x0A] @ ''Suites: s'' @ [CHR 0x0A]],
             undoStack = [], backupDir = ''/b'' \<rparr>"
  have len: "length (blockRanges ?ls) = 2" by code_simp
  have rej: "\<not> blockAcceptedAt ?ls 0" by code_simp
  have ent: "entriesOfBlock ''/p'' ?ls 1 = [?e]" by code_simp
  have k: "(1::nat) < length (blockRanges ?ls)" using len by simp
  have mem: "?e \<in> set (entriesOfBlock ''/p'' ?ls 1)" using ent by simp
  have ex: "\<exists>j<(1::nat). \<not> blockAcceptedAt ?ls j" using rej by blast
  have rd: "readAllLines (files ?w) ''/p'' = ?ls" by code_simp
  have ok: "writeIO ?io = WriteSucceeds" by simp
  have tv: "writeLines (toggledLines ?ls (designatedRange ?ls ?e) (enabled ?e))
              = ''# note'' @ [CHR 0x0A] @ ''Enabled: no'' @ [CHR 0x0A, CHR 0x0A] @ ''Types: deb''
                 @ [CHR 0x0A] @ ''URIs: http://a'' @ [CHR 0x0A] @ ''Suites: s'' @ [CHR 0x0A]"
    by code_simp
  have dv: "writeLines (take (nat (fst (designatedRange ?ls ?e))) ?ls
                        @ drop (nat (swallowedEnd ?ls (designatedRange ?ls ?e) + 1)) ?ls)
              = ''Types: deb'' @ [CHR 0x0A] @ ''URIs: http://a'' @ [CHR 0x0A]
                 @ ''Suites: s'' @ [CHR 0x0A]"
    by code_simp
  note inst = blockIndex_enumerations_differ[of "''/p''" ?ls ?w ?io "[]"]
  from inst k mem ex
  have neq: "blockRanges ?ls ! nat (blockIndex ?e) \<noteq> blockRanges ?ls ! 1"
    by blast
  from inst k mem ex rd ok
  have tg: "files (snd (snd (toggleDeb822 ?io ?e [] ?w))) ''/p''
              = Some (writeLines (toggledLines ?ls (designatedRange ?ls ?e) (enabled ?e)))"
    by blast
  from inst k mem ex rd ok
  have dl: "files (snd (snd (deleteRepoClean ?io ?e [] ?w))) ''/p''
              = Some (writeLines (take (nat (fst (designatedRange ?ls ?e))) ?ls
                        @ drop (nat (swallowedEnd ?ls (designatedRange ?ls ?e) + 1)) ?ls))"
    by blast
  from neq have neq': "blockRanges ?ls ! 0 \<noteq> blockRanges ?ls ! 1" by simp
  from len rej ent neq' tg[unfolded tv] dl[unfolded dv] show ?thesis by (intro conjI)
qed

end
